theory Spec2Isabelle
  imports Complex_Main
begin

section \<open>Chart statistics: reference collection, resolution and ranking\<close>

text \<open>
  The theory embeds the computation inside the effect of \<open>ChartStatsDialog\<close>
  (\<open>src/components/dialogs/ChartStatsDialog.tsx\<close>, steps 2 to 5 of the effect body):
  building \<open>rangeDetailsMap\<close> from the folders, collecting \<open>chartRangeIds\<close> from the
  chart's buttons, mapping the identifiers to \<open>processedStats\<close>, and sorting and slicing
  them into \<open>topStats\<close>. The steps are embedded first for inputs of the types that the
  source declares (\<open>Folder[]\<close>, \<open>StatsData = Record<string, number>\<close>, \<open>StoredChart\<close>):
  with such inputs no statement between \<open>try\<close> and \<open>catch\<close> throws, and the functions
  are total. Then the count of line 85 and the \<open>catch\<close> branch are embedded for the
  table as it is at run time, an unchecked JSON value (\<open>count_of\<close>, \<open>stats_state\<close>);
  on a table of numbers the two agree.
\<close>

subsection \<open>JavaScript numbers\<close>

text \<open>
  A JavaScript \<open>number\<close> is \<open>NaN\<close>, one of the two infinities, or a finite value. Finite
  values are taken as reals (the doubles are among them, and the two zeros are one value:
  both are falsy and they compare equal). The only arithmetic of the source is the
  subtraction in the sort comparator, of which the sort reads the sign alone; the sign of
  an IEEE difference is the sign of the exact difference.
\<close>

datatype jsnum = NaN | NegInf | Fin real | PosInf

fun js_minus :: "jsnum \<Rightarrow> jsnum \<Rightarrow> jsnum" where
  "js_minus NaN _ = NaN"
| "js_minus _ NaN = NaN"
| "js_minus PosInf PosInf = NaN"
| "js_minus NegInf NegInf = NaN"
| "js_minus PosInf _ = PosInf"
| "js_minus NegInf _ = NegInf"
| "js_minus (Fin a) PosInf = NegInf"
| "js_minus (Fin a) NegInf = PosInf"
| "js_minus (Fin a) (Fin b) = Fin (a - b)"

text \<open>\<open>a >= b\<close> and \<open>a > b\<close> on numbers: false as soon as one side is \<open>NaN\<close>.\<close>

fun js_ge :: "jsnum \<Rightarrow> jsnum \<Rightarrow> bool" where
  "js_ge NaN _ = False"
| "js_ge _ NaN = False"
| "js_ge PosInf _ = True"
| "js_ge _ NegInf = True"
| "js_ge NegInf _ = False"
| "js_ge (Fin a) PosInf = False"
| "js_ge (Fin a) (Fin b) = (b \<le> a)"

fun js_gt :: "jsnum \<Rightarrow> jsnum \<Rightarrow> bool" where
  "js_gt NaN _ = False"
| "js_gt _ NaN = False"
| "js_gt NegInf _ = False"
| "js_gt _ PosInf = False"
| "js_gt PosInf _ = True"
| "js_gt (Fin a) NegInf = True"
| "js_gt (Fin a) (Fin b) = (b < a)"

text \<open>
  \<open>Number(v)\<close> for \<open>v\<close> a number or \<open>undefined\<close> (the value of \<open>allStats[rangeId]\<close> when
  the table has no such entry), and \<open>x || 0\<close> on numbers: \<open>NaN\<close> and zero are falsy.
  Where \<open>rangeId\<close> names a member that a plain object inherits (\<open>constructor\<close>,
  \<open>toString\<close>, ...), the lookup gives a function or an object instead of \<open>undefined\<close>;
  \<open>Number\<close> of these is \<open>NaN\<close> as well, so \<open>None\<close> stands for both. \<open>Number_js\<close> is
  \<open>Number\<close> at the declared type of the table; \<open>js_Number\<close> below is \<open>Number\<close> on any
  JSON value.
\<close>

definition Number_js :: "jsnum option \<Rightarrow> jsnum" where
  "Number_js v = (case v of None \<Rightarrow> NaN | Some n \<Rightarrow> n)"

definition or_zero :: "jsnum \<Rightarrow> jsnum" where
  "or_zero n = (if n = NaN \<or> n = Fin 0 then Fin 0 else n)"

subsection \<open>Data\<close>

record Range =
  range_id :: string
  range_name :: string

record Folder =
  folder_id :: string
  folder_name :: string
  ranges :: "Range list"

type_synonym StatsData = "string \<rightharpoonup> jsnum"

record ProcessedStat =
  stat_id :: string
  folderName :: string
  rangeName :: string
  count :: jsnum

text \<open>
  \<open>StoredChart\<close> is declared in \<open>@/types/chart\<close>; the records below hold the fields the
  effect reads. An absent optional field is \<open>None\<close>. Strings are byte lists (UTF-8), which
  keeps emptiness and equality of JavaScript strings.
\<close>

record LinkButton =
  enabled :: bool
  targetRangeId :: "string option"

record ChartButton =
  btype :: string
  linkedItem :: "string option"
  linkButtons :: "LinkButton list option"

record StoredChart =
  chart_name :: string
  buttons :: "ChartButton list"

subsection \<open>Step 2: the map from range id to names\<close>

type_synonym RangeDetails = "string \<times> string"

definition set_range :: "Folder \<Rightarrow> Range \<Rightarrow> (string \<rightharpoonup> RangeDetails) \<Rightarrow> (string \<rightharpoonup> RangeDetails)" where
  "set_range folder rng m = m(range_id rng \<mapsto> (folder_name folder, range_name rng))"

definition set_folder :: "Folder \<Rightarrow> (string \<rightharpoonup> RangeDetails) \<Rightarrow> (string \<rightharpoonup> RangeDetails)" where
  "set_folder folder m = fold (set_range folder) (ranges folder) m"

definition rangeDetailsMap :: "Folder list \<Rightarrow> (string \<rightharpoonup> RangeDetails)" where
  "rangeDetailsMap allFolders = fold set_folder allFolders Map.empty"

subsection \<open>Step 3: the identifiers the chart references\<close>

text \<open>
  A JavaScript \<open>Set\<close> of strings keeps its elements in the order of their first insertion,
  which is the order \<open>Array.from\<close> reads them in: a list without repetition, \<open>add\<close>
  appending an element that is not there yet.
\<close>

definition set_add :: "string \<Rightarrow> string list \<Rightarrow> string list" where
  "set_add x s = (if x \<in> set s then s else s @ [x])"

definition add_linkedItem :: "ChartButton \<Rightarrow> string list \<Rightarrow> string list" where
  "add_linkedItem button s =
     (case linkedItem button of
        None \<Rightarrow> s
      | Some item \<Rightarrow>
          if btype button = ''normal'' \<and> item \<noteq> [] \<and> item \<noteq> ''label-only'' \<and> item \<noteq> ''exit''
          then set_add item s else s)"

definition add_linkBtn :: "LinkButton \<Rightarrow> string list \<Rightarrow> string list" where
  "add_linkBtn linkBtn s =
     (case targetRangeId linkBtn of
        None \<Rightarrow> s
      | Some target \<Rightarrow> if enabled linkBtn \<and> target \<noteq> [] then set_add target s else s)"

definition add_linkButtons :: "ChartButton \<Rightarrow> string list \<Rightarrow> string list" where
  "add_linkButtons button s =
     (case linkButtons button of None \<Rightarrow> s | Some lbs \<Rightarrow> fold add_linkBtn lbs s)"

definition collect_button :: "ChartButton \<Rightarrow> string list \<Rightarrow> string list" where
  "collect_button button s = add_linkButtons button (add_linkedItem button s)"

definition chartRangeIds :: "StoredChart \<Rightarrow> string list" where
  "chartRangeIds chart = fold collect_button (buttons chart) []"

subsection \<open>Step 4: resolution\<close>

text \<open>The two placeholder names of the source, as UTF-8 bytes.\<close>

definition deleted_folder :: string where
  "deleted_folder =
     [CHR 0xD0, CHR 0xA3, CHR 0xD0, CHR 0xB4, CHR 0xD0, CHR 0xB0, CHR 0xD0, CHR 0xBB,
      CHR 0xD0, CHR 0xB5, CHR 0xD0, CHR 0xBD, CHR 0xD0, CHR 0xBD, CHR 0xD0, CHR 0xB0,
      CHR 0xD1, CHR 0x8F, CHR 0x20, CHR 0xD0, CHR 0xBF, CHR 0xD0, CHR 0xB0, CHR 0xD0,
      CHR 0xBF, CHR 0xD0, CHR 0xBA, CHR 0xD0, CHR 0xB0]"

definition range_not_found :: string where
  "range_not_found =
     [CHR 0x28, CHR 0xD0, CHR 0xA0, CHR 0xD0, CHR 0xB5, CHR 0xD0, CHR 0xBD, CHR 0xD0,
      CHR 0xB6, CHR 0x20, CHR 0xD0, CHR 0xBD, CHR 0xD0, CHR 0xB5, CHR 0x20, CHR 0xD0,
      CHR 0xBD, CHR 0xD0, CHR 0xB0, CHR 0xD0, CHR 0xB9, CHR 0xD0, CHR 0xB4, CHR 0xD0,
      CHR 0xB5, CHR 0xD0, CHR 0xBD, CHR 0x29]"

definition resolve :: "(string \<rightharpoonup> RangeDetails) \<Rightarrow> StatsData \<Rightarrow> string \<Rightarrow> ProcessedStat" where
  "resolve details_map allStats rangeId =
     (let count = or_zero (Number_js (allStats rangeId));
          details = details_map rangeId
      in \<lparr> stat_id = rangeId,
           folderName = (case details of Some d \<Rightarrow> fst d | None \<Rightarrow> deleted_folder),
           rangeName = (case details of Some d \<Rightarrow> snd d | None \<Rightarrow> range_not_found),
           count = count \<rparr>)"

definition processedStats :: "Folder list \<Rightarrow> StatsData \<Rightarrow> StoredChart \<Rightarrow> ProcessedStat list" where
  "processedStats allFolders allStats chart =
     map (resolve (rangeDetailsMap allFolders) allStats) (chartRangeIds chart)"

subsection \<open>Step 5: ranking\<close>

text \<open>
  \<open>Array.prototype.sort\<close> calls the comparator through \<open>SortCompare\<close>, which reads a
  \<open>NaN\<close> result as \<open>+0\<close>, and places \<open>b\<close> before \<open>a\<close> when the result for \<open>(a, b)\<close>
  is positive. The sort is stable: elements that compare equal keep their order. For a
  consistent comparator this fixes the result, which the insertion sort below computes.
\<close>

definition compareFn :: "ProcessedStat \<Rightarrow> ProcessedStat \<Rightarrow> jsnum" where
  "compareFn a b = js_minus (count b) (count a)"

definition SortCompare :: "ProcessedStat \<Rightarrow> ProcessedStat \<Rightarrow> jsnum" where
  "SortCompare a b = (let v = compareFn a b in if v = NaN then Fin 0 else v)"

fun sort_insert :: "ProcessedStat \<Rightarrow> ProcessedStat list \<Rightarrow> ProcessedStat list" where
  "sort_insert a [] = [a]"
| "sort_insert a (b # bs) =
     (if js_gt (SortCompare a b) (Fin 0) then b # sort_insert a bs else a # b # bs)"

fun js_sort :: "ProcessedStat list \<Rightarrow> ProcessedStat list" where
  "js_sort [] = []"
| "js_sort (a # as) = sort_insert a (js_sort as)"

definition topStats :: "Folder list \<Rightarrow> StatsData \<Rightarrow> StoredChart \<Rightarrow> ProcessedStat list" where
  "topStats allFolders allStats chart = take 10 (js_sort (processedStats allFolders allStats chart))"

text \<open>The list the dialog shows: \<open>stats.filter(stat => stat.count > 0)\<close>.\<close>

definition shownStats :: "ProcessedStat list \<Rightarrow> ProcessedStat list" where
  "shownStats stats = filter (\<lambda>stat. js_gt (count stat) (Fin 0)) stats"

subsection \<open>The usage table as \<open>JSON.parse\<close> returns it\<close>

text \<open>
  \<open>allStats\<close> is declared \<open>StatsData\<close>, but it is what \<open>JSON.parse\<close> returned for the
  stored text (\<open>{}\<close>, that is \<open>JObject []\<close>, when nothing is stored), and nothing checks
  it: any JSON value can stand where the table or one of its numbers is expected. This
  part embeds line 85, \<open>Number(allStats[rangeId]) || 0\<close>, and the \<open>try\<close>/\<open>catch\<close> around
  it for such a table. The only exception that the conversion of a JSON value raises is a
  \<open>TypeError\<close>. The catalog and the chart keep their declared types.
\<close>

datatype js_error = TypeError

datatype jsval =
    JNull
  | JBool bool
  | JNumber jsnum
  | JString string
  | JArray "jsval list"
  | JObject "(string \<times> jsval) list"

text \<open>
  Three operations of the runtime work on UTF-16 text and on the digits of doubles:
  the reading of a string as a number (\<open>StringToNumber\<close>), the printing of a number
  (\<open>Number::toString\<close>) and the read of a property of a string primitive (its \<open>length\<close>
  and its code units). They are parameters of the model: every statement below holds for
  whatever functions they are.
\<close>

record js_runtime =
  StringToNumber :: "string \<Rightarrow> jsnum"
  NumberToString :: "jsnum \<Rightarrow> string"
  StringGet :: "string \<Rightarrow> string \<Rightarrow> jsval option"

text \<open>
  \<open>ToString\<close> of a JSON value. An array is joined (\<open>Array.prototype.join\<close>: \<open>null\<close>
  elements give the empty string, the separator is a comma). An object is converted by
  \<open>OrdinaryToPrimitive\<close>, which calls \<open>toString\<close> and \<open>valueOf\<close>: a member of a parsed
  object is never callable, so an own \<open>toString\<close> member hides \<open>Object.prototype.toString\<close>
  and the conversion throws, whereas an own \<open>valueOf\<close> member is skipped; without an own
  \<open>toString\<close> the result is \<open>[object Object]\<close>.
\<close>

fun js_ToString :: "js_runtime \<Rightarrow> jsval \<Rightarrow> js_error + string"
  and js_join :: "js_runtime \<Rightarrow> jsval list \<Rightarrow> js_error + string" where
  "js_ToString rt JNull = Inr ''null''"
| "js_ToString rt (JBool b) = Inr (if b then ''true'' else ''false'')"
| "js_ToString rt (JNumber n) = Inr (NumberToString rt n)"
| "js_ToString rt (JString s) = Inr s"
| "js_ToString rt (JArray xs) = js_join rt xs"
| "js_ToString rt (JObject fs) =
     (if ''toString'' \<in> fst ` set fs then Inl TypeError else Inr ''[object Object]'')"
| "js_join rt [] = Inr []"
| "js_join rt (x # xs) =
     (case (if x = JNull then Inr [] else js_ToString rt x) of
        Inl e \<Rightarrow> Inl e
      | Inr s \<Rightarrow>
          if xs = [] then Inr s
          else (case js_join rt xs of Inl e \<Rightarrow> Inl e | Inr t \<Rightarrow> Inr (s @ '','' @ t)))"

text \<open>
  \<open>Number(v)\<close>. \<open>None\<close> is \<open>undefined\<close>. An array is converted through its string; so
  is an object, and \<open>[object Object]\<close> is no number.
\<close>

fun js_Number :: "js_runtime \<Rightarrow> jsval option \<Rightarrow> js_error + jsnum" where
  "js_Number rt None = Inr NaN"
| "js_Number rt (Some JNull) = Inr (Fin 0)"
| "js_Number rt (Some (JBool b)) = Inr (Fin (if b then 1 else 0))"
| "js_Number rt (Some (JNumber n)) = Inr n"
| "js_Number rt (Some (JString s)) = Inr (StringToNumber rt s)"
| "js_Number rt (Some (JArray xs)) =
     (case js_join rt xs of Inl e \<Rightarrow> Inl e | Inr s \<Rightarrow> Inr (StringToNumber rt s))"
| "js_Number rt (Some (JObject fs)) =
     (if ''toString'' \<in> fst ` set fs then Inl TypeError else Inr NaN)"

text \<open>An array index as a property key: decimal digits without a leading zero.\<close>

definition digit_value :: "char \<Rightarrow> nat option" where
  "digit_value c =
     (if (48::nat) \<le> of_char c \<and> (of_char c :: nat) \<le> 57 then Some (of_char c - 48) else None)"

fun array_index_from :: "nat \<Rightarrow> string \<Rightarrow> nat option" where
  "array_index_from n [] = Some n"
| "array_index_from n (c # cs) =
     (case digit_value c of None \<Rightarrow> None | Some d \<Rightarrow> array_index_from (10 * n + d) cs)"

definition array_index :: "string \<Rightarrow> nat option" where
  "array_index key =
     (if key = [] \<or> (hd key = CHR ''0'' \<and> key \<noteq> ''0'') then None else array_index_from 0 key)"

text \<open>
  \<open>allStats[rangeId]\<close>. Reading a property of \<open>null\<close> throws. The own properties of an
  object are its members (of a repeated key the last one), those of an array are its
  elements and its \<open>length\<close>, and a boolean or a number has none. \<open>None\<close> stands for
  \<open>undefined\<close> and also for a member that the value inherits (\<open>constructor\<close>,
  \<open>toString\<close>, \<open>__proto__\<close>, ...): \<open>Number\<close> of those is \<open>NaN\<close> or 0, and the count is 0
  in both cases.
\<close>

fun js_get :: "js_runtime \<Rightarrow> jsval \<Rightarrow> string \<Rightarrow> js_error + jsval option" where
  "js_get rt JNull key = Inl TypeError"
| "js_get rt (JBool b) key = Inr None"
| "js_get rt (JNumber n) key = Inr None"
| "js_get rt (JString s) key = Inr (StringGet rt s key)"
| "js_get rt (JArray xs) key =
     Inr (if key = ''length'' then Some (JNumber (Fin (real (length xs))))
          else (case array_index key of
                  None \<Rightarrow> None
                | Some i \<Rightarrow> if i < length xs then Some (xs ! i) else None))"
| "js_get rt (JObject fs) key = Inr (map_of (rev fs) key)"

text \<open>\<open>Number(allStats[rangeId]) || 0\<close>.\<close>

definition count_of :: "js_runtime \<Rightarrow> jsval \<Rightarrow> string \<Rightarrow> js_error + jsnum" where
  "count_of rt allStats rangeId =
     (case js_get rt allStats rangeId of
        Inl e \<Rightarrow> Inl e
      | Inr v \<Rightarrow> (case js_Number rt v of Inl e \<Rightarrow> Inl e | Inr n \<Rightarrow> Inr (or_zero n)))"

definition resolve_json ::
  "js_runtime \<Rightarrow> (string \<rightharpoonup> RangeDetails) \<Rightarrow> jsval \<Rightarrow> string \<Rightarrow> js_error + ProcessedStat" where
  "resolve_json rt details_map allStats rangeId =
     (case count_of rt allStats rangeId of
        Inl e \<Rightarrow> Inl e
      | Inr n \<Rightarrow>
          (let details = details_map rangeId
           in Inr \<lparr> stat_id = rangeId,
                    folderName = (case details of Some d \<Rightarrow> fst d | None \<Rightarrow> deleted_folder),
                    rangeName = (case details of Some d \<Rightarrow> snd d | None \<Rightarrow> range_not_found),
                    count = n \<rparr>))"

text \<open>\<open>Array.prototype.map\<close> with a callback that can throw: the first throw ends it.\<close>

fun map_throwing :: "('a \<Rightarrow> js_error + 'b) \<Rightarrow> 'a list \<Rightarrow> js_error + 'b list" where
  "map_throwing f [] = Inr []"
| "map_throwing f (x # xs) =
     (case f x of
        Inl e \<Rightarrow> Inl e
      | Inr y \<Rightarrow> (case map_throwing f xs of Inl e \<Rightarrow> Inl e | Inr ys \<Rightarrow> Inr (y # ys)))"

definition processedStats_json ::
  "js_runtime \<Rightarrow> Folder list \<Rightarrow> jsval \<Rightarrow> StoredChart \<Rightarrow> js_error + ProcessedStat list" where
  "processedStats_json rt allFolders allStats chart =
     map_throwing (resolve_json rt (rangeDetailsMap allFolders) allStats) (chartRangeIds chart)"

text \<open>
  The list that the effect passes to \<open>setStats\<close>: the sorted and sliced list, or the empty
  list in the \<open>catch\<close> branch.
\<close>

definition stats_state ::
  "js_runtime \<Rightarrow> Folder list \<Rightarrow> jsval \<Rightarrow> StoredChart \<Rightarrow> ProcessedStat list" where
  "stats_state rt allFolders allStats chart =
     (case processedStats_json rt allFolders allStats chart of
        Inl e \<Rightarrow> []
      | Inr stats \<Rightarrow> take 10 (js_sort stats))"

subsection \<open>Notions the statements use\<close>

text \<open>
  \<open>references button rid\<close>: the button passes \<open>rid\<close> to \<open>chartRangeIds.add\<close>, through
  its \<open>linkedItem\<close> or through one of its link buttons.
\<close>

definition references :: "ChartButton \<Rightarrow> string \<Rightarrow> bool" where
  "references button rid \<longleftrightarrow>
     (btype button = ''normal'' \<and> linkedItem button = Some rid
        \<and> rid \<noteq> [] \<and> rid \<noteq> ''label-only'' \<and> rid \<noteq> ''exit'')
   \<or> (case linkButtons button of
         None \<Rightarrow> False
       | Some lbs \<Rightarrow> \<exists>linkBtn \<in> set lbs.
           enabled linkBtn \<and> targetRangeId linkBtn = Some rid \<and> rid \<noteq> [])"

text \<open>
  The catalog in scan order: the \<open>(id, (folder name, range name))\<close> of every range, in the
  order the two nested \<open>forEach\<close> loops visit them.
\<close>

definition catalog_scan :: "Folder list \<Rightarrow> (string \<times> RangeDetails) list" where
  "catalog_scan allFolders =
     concat (map (\<lambda>folder. map (\<lambda>rng. (range_id rng, (folder_name folder, range_name rng)))
                                (ranges folder)) allFolders)"

definition count_ge :: "ProcessedStat \<Rightarrow> ProcessedStat \<Rightarrow> bool" where
  "count_ge a b = js_ge (count a) (count b)"

text \<open>The count that \<open>Number(allStats[rangeId]) || 0\<close> gives for a table of numbers.\<close>

definition table_count :: "StatsData \<Rightarrow> string \<Rightarrow> jsnum" where
  "table_count allStats rangeId =
     (case allStats rangeId of None \<Rightarrow> Fin 0 | Some n \<Rightarrow> if n = NaN then Fin 0 else n)"

text \<open>A button without its \<open>linkedItem\<close> when that is a sentinel of a normal button.\<close>

definition without_sentinel :: "ChartButton \<Rightarrow> ChartButton" where
  "without_sentinel button =
     (if btype button = ''normal''
         \<and> (linkedItem button = Some ''label-only'' \<or> linkedItem button = Some ''exit'')
      then button\<lparr>linkedItem := None\<rparr> else button)"

text \<open>A button whose link list keeps the link buttons that satisfy \<open>P\<close>.\<close>

definition keep_linkButtons :: "(LinkButton \<Rightarrow> bool) \<Rightarrow> ChartButton \<Rightarrow> ChartButton" where
  "keep_linkButtons P button = button\<lparr>linkButtons := map_option (filter P) (linkButtons button)\<rparr>"

definition contributing :: "LinkButton \<Rightarrow> bool" where
  "contributing linkBtn \<longleftrightarrow>
     enabled linkBtn \<and> targetRangeId linkBtn \<noteq> None \<and> targetRangeId linkBtn \<noteq> Some []"

text \<open>
  \<open>place stats s\<close> is the index of \<open>s\<close> in \<open>stats\<close>. \<open>rank_in stats s\<close> is the place
  that a stable sort by descending count gives to \<open>s\<close>: the number of entries of \<open>stats\<close>
  with a greater count, plus the number of entries with the same count that stand before
  \<open>s\<close> in \<open>stats\<close>.
\<close>

definition place :: "ProcessedStat list \<Rightarrow> ProcessedStat \<Rightarrow> nat" where
  "place stats s = length (takeWhile (\<lambda>x. x \<noteq> s) stats)"

definition rank_in :: "ProcessedStat list \<Rightarrow> ProcessedStat \<Rightarrow> nat" where
  "rank_in stats s =
     length (filter (\<lambda>x. js_gt (count x) (count s)) stats) +
     length (filter (\<lambda>x. count x = count s) (takeWhile (\<lambda>x. x \<noteq> s) stats))"

text \<open>
  The JSON values whose conversion to a number throws: an object with an own \<open>toString\<close>
  member, and an array that holds such a value.
\<close>

fun unconvertible :: "jsval \<Rightarrow> bool" where
  "unconvertible (JObject fs) = (''toString'' \<in> fst ` set fs)"
| "unconvertible (JArray xs) = (\<exists>x \<in> set xs. unconvertible x)"
| "unconvertible _ = False"

text \<open>The table of numbers that \<open>count_of\<close> reads out of a table of JSON values.\<close>

definition counts_view :: "js_runtime \<Rightarrow> jsval \<Rightarrow> StatsData" where
  "counts_view rt allStats rangeId =
     (case count_of rt allStats rangeId of Inl e \<Rightarrow> None | Inr n \<Rightarrow> Some n)"

subsection \<open>Concrete inputs\<close>

definition ex_folders :: "Folder list" where
  "ex_folders =
     [\<lparr>folder_id = ''f1'', folder_name = ''F'',
       ranges = [\<lparr>range_id = ''r1'', range_name = ''A''\<rparr>,
                 \<lparr>range_id = ''r2'', range_name = ''B''\<rparr>]\<rparr>]"

definition ex_stats :: StatsData where
  "ex_stats = [''r1'' \<mapsto> Fin 5, ''r2'' \<mapsto> Fin 9, ''r3'' \<mapsto> Fin 2]"

definition ex_chart :: StoredChart where
  "ex_chart =
     \<lparr>chart_name = ''chart'',
      buttons =
        [\<lparr>btype = ''normal'', linkedItem = Some ''r1'', linkButtons = None\<rparr>,
         \<lparr>btype = ''normal'', linkedItem = Some ''label-only'',
          linkButtons = Some [\<lparr>enabled = True, targetRangeId = Some ''r2''\<rparr>,
                              \<lparr>enabled = False, targetRangeId = Some ''r9''\<rparr>,
                              \<lparr>enabled = True, targetRangeId = Some []\<rparr>]\<rparr>,
         \<lparr>btype = ''normal'', linkedItem = Some ''exit'', linkButtons = None\<rparr>,
         \<lparr>btype = ''legend'', linkedItem = Some ''r8'',
          linkButtons = Some [\<lparr>enabled = True, targetRangeId = Some ''r1''\<rparr>]\<rparr>,
         \<lparr>btype = ''normal'', linkedItem = Some [], linkButtons = Some []\<rparr>,
         \<lparr>btype = ''normal'', linkedItem = Some ''r3'', linkButtons = None\<rparr>,
         \<lparr>btype = ''normal'', linkedItem = Some ''r4'', linkButtons = None\<rparr>]\<rparr>"

definition dup_folders :: "Folder list" where
  "dup_folders =
     [\<lparr>folder_id = ''f1'', folder_name = ''F'',
       ranges = [\<lparr>range_id = ''r1'', range_name = ''A''\<rparr>,
                 \<lparr>range_id = ''r2'', range_name = ''B''\<rparr>]\<rparr>,
      \<lparr>folder_id = ''f2'', folder_name = ''G'',
       ranges = [\<lparr>range_id = ''r1'', range_name = ''C''\<rparr>]\<rparr>]"

definition neg_stats :: StatsData where
  "neg_stats = [''r1'' \<mapsto> Fin (- 3)]"

definition normal_button :: "string \<Rightarrow> ChartButton" where
  "normal_button rid = \<lparr>btype = ''normal'', linkedItem = Some rid, linkButtons = None\<rparr>"

definition one_chart :: StoredChart where
  "one_chart = \<lparr>chart_name = ''one'', buttons = [normal_button ''r1'']\<rparr>"

definition big_chart :: StoredChart where
  "big_chart =
     \<lparr>chart_name = ''big'',
      buttons = map normal_button
        [''a'', ''b'', ''c'', ''d'', ''e'', ''f'', ''g'', ''h'', ''i'', ''j'', ''k'']\<rparr>"

definition big_stats :: StatsData where
  "big_stats =
     [''a'' \<mapsto> Fin 1, ''b'' \<mapsto> Fin 2, ''c'' \<mapsto> Fin 3, ''d'' \<mapsto> Fin 4, ''e'' \<mapsto> Fin 5,
      ''f'' \<mapsto> Fin 6, ''g'' \<mapsto> Fin 7, ''h'' \<mapsto> Fin 8, ''i'' \<mapsto> Fin 9, ''j'' \<mapsto> Fin 10]"

definition full_stats :: StatsData where
  "full_stats = big_stats(''k'' \<mapsto> Fin 11)"

text \<open>
  A runtime for the concrete inputs. It agrees with JavaScript on the three strings that
  they convert (\<open>Number("7")\<close> is 7, \<open>Number("3")\<close> is 3, \<open>Number("")\<close> is 0) and on the
  number that they print (\<open>String(3)\<close> is \<open>3\<close>); nothing else is read from it.
\<close>

definition example_runtime :: js_runtime where
  "example_runtime =
     \<lparr>StringToNumber = (\<lambda>s. if s = ''7'' then Fin 7 else if s = ''3'' then Fin 3
                              else if s = [] then Fin 0 else NaN),
      NumberToString = (\<lambda>n. if n = Fin 3 then ''3'' else ''NaN''),
      StringGet = (\<lambda>s key. None)\<rparr>"

definition json_stats :: jsval where
  "json_stats =
     JObject [(''r1'', JString ''7''), (''r2'', JBool True),
              (''r3'', JArray [JNumber (Fin 3)]), (''r4'', JNull)]"

section \<open>Properties\<close>

subsection \<open>Numbers and the comparator\<close>

lemma or_zero_not_NaN: "or_zero n \<noteq> NaN"
  by (simp add: or_zero_def)

lemma or_zero_Number_js: "or_zero (Number_js (t r)) = table_count t r"
  by (simp add: or_zero_def Number_js_def table_count_def split: option.splits)

lemma SortCompare_positive:
  "count a \<noteq> NaN \<Longrightarrow> count b \<noteq> NaN \<Longrightarrow>
   js_gt (SortCompare a b) (Fin 0) = js_gt (count b) (count a)"
  by (cases "count a"; cases "count b") (simp_all add: SortCompare_def compareFn_def)

lemma not_js_gt_ge: "x \<noteq> NaN \<Longrightarrow> y \<noteq> NaN \<Longrightarrow> \<not> js_gt y x \<Longrightarrow> js_ge x y"
  by (cases x; cases y) simp_all

lemma js_gt_ge: "js_gt y x \<Longrightarrow> js_ge y x"
  by (cases x; cases y) simp_all

lemma js_ge_trans: "js_ge x y \<Longrightarrow> js_ge y z \<Longrightarrow> js_ge x z"
  by (cases x; cases y; cases z) simp_all

subsection \<open>The sort\<close>

lemma set_sort_insert: "set (sort_insert a bs) = insert a (set bs)"
  by (induction bs) auto

lemma length_sort_insert: "length (sort_insert a bs) = Suc (length bs)"
  by (induction bs) auto

lemma set_js_sort: "set (js_sort xs) = set xs"
  by (induction xs) (auto simp: set_sort_insert)

lemma length_js_sort: "length (js_sort xs) = length xs"
  by (induction xs) (auto simp: length_sort_insert)

lemma sorted_sort_insert:
  assumes "count a \<noteq> NaN" "\<forall>b \<in> set bs. count b \<noteq> NaN" "sorted_wrt count_ge bs"
  shows "sorted_wrt count_ge (sort_insert a bs)"
  using assms
proof (induction bs)
  case Nil
  then show ?case by simp
next
  case (Cons b bs)
  show ?case
  proof (cases "js_gt (SortCompare a b) (Fin 0)")
    case True
    then have gt: "js_gt (count b) (count a)"
      using Cons.prems by (simp add: SortCompare_positive)
    have "sorted_wrt count_ge (sort_insert a bs)"
      using Cons by simp
    moreover have "\<forall>x \<in> set (sort_insert a bs). count_ge b x"
      using Cons.prems gt by (auto simp: set_sort_insert count_ge_def js_gt_ge)
    ultimately show ?thesis using True by simp
  next
    case False
    then have ge: "js_ge (count a) (count b)"
      using Cons.prems by (simp add: SortCompare_positive not_js_gt_ge)
    have "\<forall>x \<in> set bs. count_ge a x"
      using Cons.prems ge by (auto simp: count_ge_def intro: js_ge_trans)
    then show ?thesis using False Cons.prems ge by (simp add: count_ge_def)
  qed
qed

lemma sorted_js_sort:
  "\<forall>b \<in> set xs. count b \<noteq> NaN \<Longrightarrow> sorted_wrt count_ge (js_sort xs)"
  by (induction xs) (auto simp: sorted_sort_insert set_js_sort)

subsection \<open>Collection\<close>

lemma set_set_add: "set (set_add x s) = insert x (set s)"
  by (auto simp: set_add_def)

lemma distinct_set_add: "distinct s \<Longrightarrow> distinct (set_add x s)"
  by (simp add: set_add_def)

lemma set_add_linkBtn:
  "set (add_linkBtn lb s) =
     set s \<union> {t. enabled lb \<and> targetRangeId lb = Some t \<and> t \<noteq> []}"
  by (auto simp: add_linkBtn_def set_set_add split: option.splits)

lemma distinct_add_linkBtn: "distinct s \<Longrightarrow> distinct (add_linkBtn lb s)"
  by (simp add: add_linkBtn_def distinct_set_add split: option.splits)

lemma set_fold_add_linkBtn:
  "set (fold add_linkBtn lbs s) =
     set s \<union> {t. \<exists>lb \<in> set lbs. enabled lb \<and> targetRangeId lb = Some t \<and> t \<noteq> []}"
proof (induction lbs arbitrary: s)
  case Nil
  then show ?case by simp
next
  case (Cons lb lbs)
  show ?case
    unfolding fold_simps Cons.IH set_add_linkBtn by auto
qed

lemma distinct_fold_add_linkBtn: "distinct s \<Longrightarrow> distinct (fold add_linkBtn lbs s)"
  by (induction lbs arbitrary: s) (simp_all add: distinct_add_linkBtn)

lemma set_add_linkedItem:
  "set (add_linkedItem b s) =
     set s \<union> {rid. btype b = ''normal'' \<and> linkedItem b = Some rid
                   \<and> rid \<noteq> [] \<and> rid \<noteq> ''label-only'' \<and> rid \<noteq> ''exit''}"
  by (auto simp: add_linkedItem_def set_set_add split: option.splits)

lemma distinct_add_linkedItem: "distinct s \<Longrightarrow> distinct (add_linkedItem b s)"
  by (simp add: add_linkedItem_def distinct_set_add split: option.splits)

lemma set_collect_button:
  "set (collect_button b s) = set s \<union> {rid. references b rid}"
  by (auto simp: collect_button_def add_linkButtons_def set_add_linkedItem
      set_fold_add_linkBtn references_def split: option.splits)

lemma distinct_collect_button: "distinct s \<Longrightarrow> distinct (collect_button b s)"
  by (simp add: collect_button_def add_linkButtons_def distinct_add_linkedItem
      distinct_fold_add_linkBtn split: option.splits)

lemma set_fold_collect_button:
  "set (fold collect_button bs s) = set s \<union> {rid. \<exists>b \<in> set bs. references b rid}"
proof (induction bs arbitrary: s)
  case Nil
  then show ?case by simp
next
  case (Cons b bs)
  show ?case
    unfolding fold_simps Cons.IH set_collect_button by auto
qed

lemma distinct_fold_collect_button:
  "distinct s \<Longrightarrow> distinct (fold collect_button bs s)"
  by (induction bs arbitrary: s) (simp_all add: distinct_collect_button)

lemma set_chartRangeIds:
  "set (chartRangeIds chart) = {rid. \<exists>b \<in> set (buttons chart). references b rid}"
  by (simp add: chartRangeIds_def set_fold_collect_button)

lemma distinct_chartRangeIds: "distinct (chartRangeIds chart)"
  by (simp add: chartRangeIds_def distinct_fold_collect_button)

subsection \<open>Resolution\<close>

lemma count_resolve: "count (resolve m t r) = table_count t r"
  by (simp add: resolve_def Let_def or_zero_Number_js)

lemma stat_id_resolve: "stat_id (resolve m t r) = r"
  by (simp add: resolve_def Let_def)

lemma table_count_not_NaN: "table_count t r \<noteq> NaN"
  by (simp add: table_count_def split: option.splits)

lemma map_stat_id_processedStats:
  "map stat_id (processedStats fs t c) = chartRangeIds c"
  by (simp add: processedStats_def comp_def stat_id_resolve)

lemma processedStats_entry:
  "s \<in> set (processedStats fs t c) \<Longrightarrow> s = resolve (rangeDetailsMap fs) t (stat_id s)"
  by (auto simp: processedStats_def stat_id_resolve)

lemma count_processedStats:
  "s \<in> set (processedStats fs t c) \<Longrightarrow> count s \<noteq> NaN"
  by (auto simp: processedStats_def count_resolve table_count_not_NaN)

lemma length_processedStats:
  "length (processedStats fs t c) = card {rid. \<exists>b \<in> set (buttons c). references b rid}"
  using distinct_card [OF distinct_chartRangeIds, of c]
  by (simp add: processedStats_def set_chartRangeIds)

lemma set_topStats_subset: "set (topStats fs t c) \<subseteq> set (processedStats fs t c)"
  using set_take_subset [of 10 "js_sort (processedStats fs t c)"]
  by (simp add: topStats_def set_js_sort)

lemma sorted_topStats: "sorted_wrt count_ge (topStats fs t c)"
  unfolding topStats_def
  by (intro sorted_wrt_take sorted_js_sort) (simp add: count_processedStats)

subsection \<open>The catalog map\<close>

lemma fold_set_range:
  "fold (set_range f) rs m =
     m ++ map_of (rev (map (\<lambda>rng. (range_id rng, (folder_name f, range_name rng))) rs))"
proof (induction rs arbitrary: m)
  case Nil
  then show ?case by simp
next
  case (Cons r rs)
  show ?case
    unfolding fold_simps Cons.IH
    by (rule ext) (simp add: set_range_def map_add_def split: option.splits)
qed

lemma fold_set_folder:
  "fold set_folder fs m = m ++ map_of (rev (catalog_scan fs))"
proof (induction fs arbitrary: m)
  case Nil
  then show ?case by (simp add: catalog_scan_def)
next
  case (Cons f fs)
  show ?case
    unfolding fold_simps Cons.IH
    by (simp add: set_folder_def fold_set_range catalog_scan_def)
qed

lemma rangeDetailsMap_scan: "rangeDetailsMap fs = map_of (rev (catalog_scan fs))"
  by (simp add: rangeDetailsMap_def fold_set_folder)

lemma rangeDetailsMap_last:
  assumes "catalog_scan fs = pre @ (rid, d) # post" "rid \<notin> fst ` set post"
  shows "rangeDetailsMap fs rid = Some d"
proof -
  have "map_of (rev post) rid = None"
    using assms(2) by (simp add: map_of_eq_None_iff)
  then show ?thesis
    using assms(1) by (simp add: rangeDetailsMap_scan map_add_def)
qed

lemma rangeDetailsMap_None:
  "rangeDetailsMap fs rid = None \<longleftrightarrow>
     (\<forall>f \<in> set fs. \<forall>r \<in> set (ranges f). range_id r \<noteq> rid)"
  by (force simp: rangeDetailsMap_scan map_of_eq_None_iff catalog_scan_def image_iff)

subsection \<open>Places in the sorted list\<close>

lemma sort_insert_split:
  "sort_insert a bs =
     takeWhile (\<lambda>b. js_gt (SortCompare a b) (Fin 0)) bs @ a #
     dropWhile (\<lambda>b. js_gt (SortCompare a b) (Fin 0)) bs"
  by (induction bs) auto

lemma place_append:
  "place (xs @ ys) e = (if e \<in> set xs then place xs e else length xs + place ys e)"
  by (auto simp: place_def takeWhile_append)

lemma place_Cons: "place (x # xs) e = (if x = e then 0 else Suc (place xs e))"
  by (simp add: place_def)

lemma place_less: "e \<in> set xs \<Longrightarrow> place xs e < length xs"
  unfolding place_def by (induction xs) auto

lemma nth_place: "e \<in> set xs \<Longrightarrow> xs ! place xs e = e"
  unfolding place_def by (induction xs) auto

lemma place_nth: "distinct xs \<Longrightarrow> i < length xs \<Longrightarrow> place xs (xs ! i) = i"
  unfolding place_def
proof (induction xs arbitrary: i)
  case Nil
  then show ?case by simp
next
  case (Cons x xs)
  then show ?case by (cases i) auto
qed

lemma in_take_place:
  "e \<in> set (take n xs) \<longleftrightarrow> e \<in> set xs \<and> place xs e < n"
proof (induction xs arbitrary: n)
  case Nil
  then show ?case by simp
next
  case (Cons x xs)
  then show ?case by (cases n) (auto simp: place_Cons)
qed

lemma js_gt_total:
  "x \<noteq> NaN \<Longrightarrow> y \<noteq> NaN \<Longrightarrow> js_gt x y \<or> x = y \<or> js_gt y x"
  by (cases x; cases y) auto

lemma js_gt_irrefl: "\<not> js_gt x x"
  by (cases x) auto

lemma js_gt_asym: "js_gt x y \<Longrightarrow> \<not> js_gt y x"
  by (cases x; cases y) auto

lemma js_ge_gt_trans: "js_ge x y \<Longrightarrow> js_gt y z \<Longrightarrow> js_gt x z"
  by (cases x; cases y; cases z) auto

lemma sorted_takeWhile_gt:
  assumes "sorted_wrt count_ge L"
  shows "takeWhile (\<lambda>b. js_gt (count b) c) L = filter (\<lambda>b. js_gt (count b) c) L"
  using assms
proof (induction L)
  case Nil
  then show ?case by simp
next
  case (Cons b bs)
  show ?case
  proof (cases "js_gt (count b) c")
    case True
    then show ?thesis using Cons by simp
  next
    case False
    have "\<not> js_gt (count x) c" if "x \<in> set bs" for x
    proof
      assume "js_gt (count x) c"
      moreover have "js_ge (count b) (count x)"
        using Cons.prems that by (auto simp: count_ge_def)
      ultimately show False using False js_ge_gt_trans by blast
    qed
    then have "filter (\<lambda>b. js_gt (count b) c) bs = []"
      by (simp add: filter_empty_conv)
    then show ?thesis using False by simp
  qed
qed

lemma length_filter_sort_insert:
  "length (filter Q (sort_insert a bs)) = length (filter Q (a # bs))"
  by (induction bs) auto

lemma length_filter_js_sort: "length (filter Q (js_sort xs)) = length (filter Q xs)"
proof (induction xs)
  case Nil
  then show ?case by simp
next
  case (Cons a as)
  then show ?case by (simp add: length_filter_sort_insert)
qed

lemma place_js_sort:
  assumes "distinct xs" "\<forall>x \<in> set xs. count x \<noteq> NaN" "e \<in> set xs"
  shows "place (js_sort xs) e = rank_in xs e"
  using assms
proof (induction xs)
  case Nil
  then show ?case by simp
next
  case (Cons a as)
  let ?L = "js_sort as"
  let ?G = "\<lambda>b. js_gt (count b) (count a)"
  have nn: "count a \<noteq> NaN" "\<forall>x \<in> set as. count x \<noteq> NaN"
    using Cons.prems by auto
  have G: "takeWhile (\<lambda>b. js_gt (SortCompare a b) (Fin 0)) ?L = takeWhile ?G ?L"
    "dropWhile (\<lambda>b. js_gt (SortCompare a b) (Fin 0)) ?L = dropWhile ?G ?L"
    using nn by (auto intro!: takeWhile_cong dropWhile_cong simp: SortCompare_positive set_js_sort)
  have split: "sort_insert a ?L = takeWhile ?G ?L @ a # dropWhile ?G ?L"
    by (simp add: sort_insert_split G)
  have sorted: "sorted_wrt count_ge ?L"
    using nn by (simp add: sorted_js_sort)
  have tw: "takeWhile ?G ?L = filter ?G ?L"
    using sorted by (rule sorted_takeWhile_gt)
  have a_notin: "a \<notin> set as" using Cons.prems by simp
  show ?case
  proof (cases "e = a")
    case True
    have "place (js_sort (a # as)) a = length (filter ?G ?L)"
      using a_notin by (simp add: split place_append place_Cons tw set_js_sort)
    also have "\<dots> = length (filter ?G as)"
      by (rule length_filter_js_sort)
    finally show ?thesis
      using True by (simp add: rank_in_def js_gt_irrefl)
  next
    case False
    then have e_in: "e \<in> set as" using Cons.prems by simp
    have IH: "place ?L e = rank_in as e"
      using Cons.IH Cons.prems e_in by simp
    have ne: "count e \<noteq> NaN" using nn e_in by simp
    have L_split: "?L = takeWhile ?G ?L @ dropWhile ?G ?L" by simp
    show ?thesis
    proof (cases "js_gt (count e) (count a)")
      case True
      then have "e \<in> set (takeWhile ?G ?L)"
        using e_in by (simp add: tw set_js_sort)
      then have "place (js_sort (a # as)) e = place (takeWhile ?G ?L) e"
        and "place ?L e = place (takeWhile ?G ?L) e"
        using place_append [of "takeWhile ?G ?L" "a # dropWhile ?G ?L" e]
          place_append [of "takeWhile ?G ?L" "dropWhile ?G ?L" e]
        by (simp_all add: split)
      then have "place (js_sort (a # as)) e = rank_in as e"
        using IH by simp
      moreover have "rank_in (a # as) e = rank_in as e"
        using True False js_gt_asym [OF True] js_gt_irrefl [of "count e"]
        by (auto simp: rank_in_def)
      ultimately show ?thesis by simp
    next
      case ng: False
      then have notin: "e \<notin> set (takeWhile ?G ?L)"
        by (simp add: tw)
      have "place (js_sort (a # as)) e = length (takeWhile ?G ?L) + Suc (place (dropWhile ?G ?L) e)"
        using notin False by (simp add: split place_append place_Cons)
      moreover have "place ?L e = length (takeWhile ?G ?L) + place (dropWhile ?G ?L) e"
        using notin place_append [of "takeWhile ?G ?L" "dropWhile ?G ?L" e] by simp
      ultimately have "place (js_sort (a # as)) e = Suc (rank_in as e)"
        using IH by simp
      moreover have "rank_in (a # as) e = Suc (rank_in as e)"
        using ng False js_gt_total [OF ne nn(1)]
        by (auto simp: rank_in_def dest: js_gt_asym)
      ultimately show ?thesis by simp
    qed
  qed
qed

lemma distinct_sort_insert: "distinct (sort_insert a bs) \<longleftrightarrow> a \<notin> set bs \<and> distinct bs"
  by (induction bs) (auto simp: set_sort_insert)

lemma distinct_js_sort: "distinct (js_sort xs) \<longleftrightarrow> distinct xs"
  by (induction xs) (auto simp: distinct_sort_insert set_js_sort)

lemma distinct_processedStats: "distinct (processedStats fs t c)"
  using distinct_chartRangeIds [of c] map_stat_id_processedStats [of fs t c]
  by (metis distinct_map)

lemma place_sorted_processedStats:
  "s \<in> set (processedStats fs t c) \<Longrightarrow>
   place (js_sort (processedStats fs t c)) s = rank_in (processedStats fs t c) s"
  by (rule place_js_sort) (auto simp: distinct_processedStats count_processedStats)

lemma in_topStats_iff:
  "s \<in> set (processedStats fs t c) \<Longrightarrow>
   s \<in> set (topStats fs t c) \<longleftrightarrow> rank_in (processedStats fs t c) s < 10"
  by (simp add: topStats_def in_take_place set_js_sort place_sorted_processedStats)

lemma rank_topStats_nth:
  assumes "i < length (topStats fs t c)"
  shows "rank_in (processedStats fs t c) (topStats fs t c ! i) = i"
proof -
  let ?L = "js_sort (processedStats fs t c)"
  have i: "i < length ?L" "i < 10"
    using assms by (simp_all add: topStats_def)
  have nth: "topStats fs t c ! i = ?L ! i"
    using i by (simp add: topStats_def)
  have "?L ! i \<in> set (processedStats fs t c)"
    using i(1) nth_mem [of i ?L] by (simp add: set_js_sort)
  then have "rank_in (processedStats fs t c) (?L ! i) = place ?L (?L ! i)"
    by (simp add: place_sorted_processedStats)
  also have "\<dots> = i"
    using i(1) by (simp add: place_nth distinct_js_sort distinct_processedStats)
  finally show ?thesis by (simp add: nth)
qed

lemma cut_below_kept:
  assumes "s \<in> set (processedStats fs t c)" "s \<notin> set (topStats fs t c)"
    and "u \<in> set (topStats fs t c)"
  shows "js_ge (count u) (count s)"
proof -
  let ?L = "js_sort (processedStats fs t c)"
  have sL: "s \<in> set ?L" using assms(1) by (simp add: set_js_sort)
  have uL: "u \<in> set ?L" "place ?L u < 10"
    using assms(3) by (simp_all add: topStats_def in_take_place)
  have "\<not> place ?L s < 10"
    using assms(2) sL by (simp add: topStats_def in_take_place)
  then have lt: "place ?L u < place ?L s" using uL(2) by simp
  have "sorted_wrt count_ge ?L"
    by (rule sorted_js_sort) (simp add: count_processedStats)
  then have "count_ge (?L ! place ?L u) (?L ! place ?L s)"
    using lt place_less [OF sL] by (rule sorted_wrt_nth_less)
  then show ?thesis
    using sL uL(1) by (simp add: nth_place count_ge_def)
qed

subsection \<open>The table of JSON values\<close>

lemma or_zero_idem: "or_zero (or_zero n) = or_zero n"
  by (simp add: or_zero_def)

lemma js_Number_number: "js_Number rt (map_option JNumber v) = Inr (Number_js v)"
  by (cases v) (simp_all add: Number_js_def)

lemma map_throwing_Inr:
  "\<forall>x \<in> set xs. \<exists>y. f x = Inr y \<Longrightarrow>
   map_throwing f xs = Inr (map (\<lambda>x. case f x of Inr y \<Rightarrow> y) xs)"
  by (induction xs) auto

lemma map_throwing_Inl:
  "\<exists>x \<in> set xs. f x = Inl TypeError \<Longrightarrow> map_throwing f xs = Inl TypeError"
proof (induction xs)
  case Nil
  then show ?case by simp
next
  case (Cons x xs)
  show ?case
  proof (cases "f x")
    case (Inl e)
    then show ?thesis by (cases e) simp
  next
    case (Inr y)
    then have "\<exists>x \<in> set xs. f x = Inl TypeError"
      using Cons.prems by auto
    then have "map_throwing f xs = Inl TypeError" by (rule Cons.IH)
    then show ?thesis using Inr by simp
  qed
qed

lemma resolve_json_Inl:
  "resolve_json rt m t r = Inl e \<longleftrightarrow> count_of rt t r = Inl e"
  by (auto simp: resolve_json_def Let_def split: sum.splits)

lemma resolve_json_view:
  "count_of rt t r = Inr n \<Longrightarrow> resolve_json rt m t r = Inr (resolve m (counts_view rt t) r)"
  by (auto simp: resolve_json_def resolve_def counts_view_def Number_js_def count_of_def
      Let_def or_zero_idem split: sum.splits)

lemma count_of_cases: "count_of rt t r = Inl TypeError \<or> (\<exists>n. count_of rt t r = Inr n)"
  by (cases "count_of rt t r") (metis js_error.exhaust, blast)

lemma processedStats_json_ok:
  assumes "\<forall>rid \<in> set (chartRangeIds c). count_of rt t rid \<noteq> Inl TypeError"
  shows "processedStats_json rt fs t c = Inr (processedStats fs (counts_view rt t) c)"
proof -
  have ok: "resolve_json rt (rangeDetailsMap fs) t rid =
      Inr (resolve (rangeDetailsMap fs) (counts_view rt t) rid)"
    if "rid \<in> set (chartRangeIds c)" for rid
    using assms that count_of_cases [of rt t rid] resolve_json_view by blast
  then have "map_throwing (resolve_json rt (rangeDetailsMap fs) t) (chartRangeIds c) =
      Inr (map (\<lambda>x. case resolve_json rt (rangeDetailsMap fs) t x of Inr y \<Rightarrow> y) (chartRangeIds c))"
    by (intro map_throwing_Inr) blast
  also have "map (\<lambda>x. case resolve_json rt (rangeDetailsMap fs) t x of Inr y \<Rightarrow> y) (chartRangeIds c)
      = map (resolve (rangeDetailsMap fs) (counts_view rt t)) (chartRangeIds c)"
    using ok by (intro map_cong) simp_all
  finally show ?thesis
    by (simp add: processedStats_json_def processedStats_def)
qed

lemma processedStats_json_throws:
  assumes "\<exists>rid \<in> set (chartRangeIds c). count_of rt t rid = Inl TypeError"
  shows "processedStats_json rt fs t c = Inl TypeError"
  unfolding processedStats_json_def
  by (rule map_throwing_Inl) (use assms in \<open>auto simp: resolve_json_Inl\<close>)

lemma count_of_JObject:
  "count_of rt (JObject fs) rid =
     (case map_of (rev fs) rid of
        None \<Rightarrow> Inr (Fin 0)
      | Some JNull \<Rightarrow> Inr (Fin 0)
      | Some (JBool b) \<Rightarrow> Inr (Fin (if b then 1 else 0))
      | Some (JNumber n) \<Rightarrow> Inr (if n = NaN then Fin 0 else n)
      | Some (JString s) \<Rightarrow> Inr (or_zero (StringToNumber rt s))
      | Some (JArray xs) \<Rightarrow>
          (case js_join rt xs of Inl e \<Rightarrow> Inl e | Inr s \<Rightarrow> Inr (or_zero (StringToNumber rt s)))
      | Some (JObject gs) \<Rightarrow>
          if ''toString'' \<in> fst ` set gs then Inl TypeError else Inr (Fin 0))"
  by (simp add: count_of_def or_zero_def split: option.splits jsval.splits sum.splits)

lemma js_error_eq [simp]: "(e :: js_error) = e'"
  by (cases e; cases e') simp

lemma js_convert_throws:
  "isl (js_ToString rt v) \<longleftrightarrow> unconvertible v"
  "isl (js_join rt xs) \<longleftrightarrow> (\<exists>x \<in> set xs. unconvertible x)"
  by (induction rt v and rt xs rule: js_ToString_js_join.induct)
    (auto split: sum.splits if_splits)

lemma js_Number_throws: "isl (js_Number rt (Some v)) \<longleftrightarrow> unconvertible v"
proof (cases v)
  case (JArray xs)
  have "isl (js_Number rt (Some (JArray xs))) = isl (js_join rt xs)"
    by (cases "js_join rt xs") simp_all
  then show ?thesis using JArray by (simp add: js_convert_throws)
qed auto

lemma count_of_throws:
  "count_of rt t rid = Inl TypeError \<longleftrightarrow>
     t = JNull \<or> (\<exists>v. js_get rt t rid = Inr (Some v) \<and> unconvertible v)"
proof (cases "js_get rt t rid")
  case (Inl e)
  then have "t = JNull" by (cases t) auto
  then show ?thesis by (simp add: count_of_def)
next
  case (Inr v)
  then have t: "t \<noteq> JNull" by auto
  show ?thesis
  proof (cases v)
    case None
    then show ?thesis using Inr t by (simp add: count_of_def)
  next
    case (Some w)
    have "count_of rt t rid = Inl TypeError \<longleftrightarrow> isl (js_Number rt (Some w))"
      using Inr Some by (auto simp: count_of_def split: sum.splits)
    then show ?thesis using Inr Some t by (simp add: js_Number_throws)
  qed
qed

lemma count_of_not_NaN: "count_of rt t rid = Inr n \<Longrightarrow> n \<noteq> NaN"
  by (auto simp: count_of_def or_zero_not_NaN split: sum.splits)

lemma table_count_view:
  "count_of rt t rid = Inr n \<Longrightarrow> table_count (counts_view rt t) rid = n"
  using count_of_not_NaN [of rt t rid n] by (simp add: table_count_def counts_view_def)

text \<open>
  On a table of numbers the count and the list for the dialog are those of the embedding
  at the declared type.
\<close>

lemma resolve_table_count:
  "table_count t r = table_count t' r \<Longrightarrow> resolve m t r = resolve m t' r"
  by (simp add: resolve_def or_zero_Number_js)

lemma map_of_map_snd:
  "map_of (map (\<lambda>p. (fst p, f (snd p))) xs) k = map_option f (map_of xs k)"
  by (induction xs) auto

lemma count_of_numbers:
  "count_of rt (JObject (map (\<lambda>(k, n). (k, JNumber n)) kvs)) rid =
     Inr (table_count (map_of (rev kvs)) rid)"
proof -
  have "map_of (rev (map (\<lambda>(k, n). (k, JNumber n)) kvs)) rid =
      map_option JNumber (map_of (rev kvs) rid)"
    by (simp add: rev_map split_def map_of_map_snd)
  then show ?thesis
    by (cases "map_of (rev kvs) rid") (simp_all add: count_of_def table_count_def or_zero_def)
qed

lemma stats_state_numbers:
  "stats_state rt fs (JObject (map (\<lambda>(k, n). (k, JNumber n)) kvs)) c =
     topStats fs (map_of (rev kvs)) c"
proof -
  let ?t = "JObject (map (\<lambda>(k, n). (k, JNumber n)) kvs)"
  have "processedStats_json rt fs ?t c = Inr (processedStats fs (counts_view rt ?t) c)"
    by (rule processedStats_json_ok) (simp add: count_of_numbers)
  moreover have "processedStats fs (counts_view rt ?t) c = processedStats fs (map_of (rev kvs)) c"
    unfolding processedStats_def
  proof (rule map_cong)
    fix rid
    have "table_count (counts_view rt ?t) rid = table_count (map_of (rev kvs)) rid"
      using table_count_view [OF count_of_numbers] .
    then show "resolve (rangeDetailsMap fs) (counts_view rt ?t) rid =
        resolve (rangeDetailsMap fs) (map_of (rev kvs)) rid"
      by (rule resolve_table_count)
  qed simp
  ultimately show ?thesis by (simp add: stats_state_def topStats_def)
qed

subsection \<open>Evaluation at the concrete inputs\<close>

lemmas collect_defs = chartRangeIds_def collect_button_def add_linkButtons_def
  add_linkBtn_def add_linkedItem_def set_add_def

lemmas resolve_defs = processedStats_def resolve_def rangeDetailsMap_def set_folder_def
  set_range_def or_zero_def Number_js_def

lemmas rank_defs = topStats_def SortCompare_def compareFn_def

lemma chartRangeIds_ex: "chartRangeIds ex_chart = [''r1'', ''r2'', ''r3'', ''r4'']"
  by (simp add: ex_chart_def collect_defs)

lemma processedStats_ex:
  "processedStats ex_folders ex_stats ex_chart =
     [\<lparr>stat_id = ''r1'', folderName = ''F'', rangeName = ''A'', count = Fin 5\<rparr>,
      \<lparr>stat_id = ''r2'', folderName = ''F'', rangeName = ''B'', count = Fin 9\<rparr>,
      \<lparr>stat_id = ''r3'', folderName = deleted_folder, rangeName = range_not_found,
       count = Fin 2\<rparr>,
      \<lparr>stat_id = ''r4'', folderName = deleted_folder, rangeName = range_not_found,
       count = Fin 0\<rparr>]"
  by (simp add: chartRangeIds_ex resolve_defs ex_folders_def ex_stats_def)

lemma topStats_ex:
  "topStats ex_folders ex_stats ex_chart =
     [\<lparr>stat_id = ''r2'', folderName = ''F'', rangeName = ''B'', count = Fin 9\<rparr>,
      \<lparr>stat_id = ''r1'', folderName = ''F'', rangeName = ''A'', count = Fin 5\<rparr>,
      \<lparr>stat_id = ''r3'', folderName = deleted_folder, rangeName = range_not_found,
       count = Fin 2\<rparr>,
      \<lparr>stat_id = ''r4'', folderName = deleted_folder, rangeName = range_not_found,
       count = Fin 0\<rparr>]"
  by (simp add: processedStats_ex rank_defs)

lemma chartRangeIds_one: "chartRangeIds one_chart = [''r1'']"
  by (simp add: one_chart_def normal_button_def collect_defs)

lemma chartRangeIds_big:
  "chartRangeIds big_chart =
     [''a'', ''b'', ''c'', ''d'', ''e'', ''f'', ''g'', ''h'', ''i'', ''j'', ''k'']"
  by (simp add: big_chart_def normal_button_def collect_defs)

lemma map_stat_id_topStats_big:
  "map stat_id (topStats ex_folders big_stats big_chart) =
     [''j'', ''i'', ''h'', ''g'', ''f'', ''e'', ''d'', ''c'', ''b'', ''a'']"
  by (simp add: chartRangeIds_big resolve_defs ex_folders_def big_stats_def rank_defs)

lemma catalog_scan_dup:
  "catalog_scan dup_folders =
     [(''r1'', (''F'', ''A'')), (''r2'', (''F'', ''B''))] @ (''r1'', (''G'', ''C'')) # []"
  by (simp add: catalog_scan_def dup_folders_def)

lemma processedStats_big:
  "processedStats ex_folders big_stats big_chart =
     map (\<lambda>(rid, n). \<lparr>stat_id = rid, folderName = deleted_folder,
                          rangeName = range_not_found, count = Fin n\<rparr>)
       [(''a'', 1), (''b'', 2), (''c'', 3), (''d'', 4), (''e'', 5), (''f'', 6),
        (''g'', 7), (''h'', 8), (''i'', 9), (''j'', 10), (''k'', 0)]"
  by (simp add: chartRangeIds_big resolve_defs ex_folders_def big_stats_def)

lemma map_stat_id_topStats_full:
  "map stat_id (topStats ex_folders full_stats big_chart) =
     [''k'', ''j'', ''i'', ''h'', ''g'', ''f'', ''e'', ''d'', ''c'', ''b'']"
  by (simp add: chartRangeIds_big resolve_defs ex_folders_def big_stats_def full_stats_def
      rank_defs)

lemmas json_defs = processedStats_json_def resolve_json_def count_of_def rangeDetailsMap_def
  set_folder_def set_range_def or_zero_def

lemma processedStats_json_ex:
  "processedStats_json example_runtime ex_folders json_stats ex_chart =
     Inr [\<lparr>stat_id = ''r1'', folderName = ''F'', rangeName = ''A'', count = Fin 7\<rparr>,
          \<lparr>stat_id = ''r2'', folderName = ''F'', rangeName = ''B'', count = Fin 1\<rparr>,
          \<lparr>stat_id = ''r3'', folderName = deleted_folder, rangeName = range_not_found,
           count = Fin 3\<rparr>,
          \<lparr>stat_id = ''r4'', folderName = deleted_folder, rangeName = range_not_found,
           count = Fin 0\<rparr>]"
  by (simp add: chartRangeIds_ex json_defs ex_folders_def json_stats_def example_runtime_def)

subsection \<open>Further facts about collection\<close>

lemma length_filter_eq_distinct:
  "distinct xs \<Longrightarrow> x \<in> set xs \<Longrightarrow> length (filter (\<lambda>y. y = x) xs) = 1"
proof (induction xs)
  case Nil
  then show ?case by simp
next
  case (Cons y ys)
  show ?case
  proof (cases "y = x")
    case True
    then have "filter (\<lambda>z. z = x) ys = []"
      using Cons.prems by (auto simp: filter_empty_conv)
    then show ?thesis using True by simp
  next
    case False
    then show ?thesis using Cons by simp
  qed
qed

lemma collect_button_without_sentinel:
  "collect_button (without_sentinel b) s = collect_button b s"
  by (auto simp: without_sentinel_def collect_button_def add_linkButtons_def add_linkedItem_def
      split: option.splits)

lemma add_linkBtn_idle: "\<not> contributing lb \<Longrightarrow> add_linkBtn lb s = s"
  by (auto simp: contributing_def add_linkBtn_def split: option.splits)

lemma fold_add_linkBtn_filter:
  assumes "\<And>lb. \<not> P lb \<Longrightarrow> \<not> contributing lb"
  shows "fold add_linkBtn (filter P lbs) s = fold add_linkBtn lbs s"
  using assms by (induction lbs arbitrary: s) (auto simp: add_linkBtn_idle)

lemma collect_button_keep_linkButtons:
  assumes "\<And>lb. \<not> P lb \<Longrightarrow> \<not> contributing lb"
  shows "collect_button (keep_linkButtons P b) s = collect_button b s"
  using fold_add_linkBtn_filter [of P, OF assms]
  by (auto simp: keep_linkButtons_def collect_button_def add_linkButtons_def
      add_linkedItem_def split: option.splits)

lemma chartRangeIds_map_buttons:
  assumes "\<And>b s. collect_button (g b) s = collect_button b s"
  shows "chartRangeIds (chart\<lparr>buttons := map g (buttons chart)\<rparr>) = chartRangeIds chart"
proof -
  have "collect_button \<circ> g = collect_button"
    using assms by (intro ext) simp
  then show ?thesis by (simp add: chartRangeIds_def fold_map)
qed

lemma topStats_all_when_short:
  "length (chartRangeIds c) \<le> 10 \<Longrightarrow> set (topStats fs t c) = set (processedStats fs t c)"
  by (simp add: topStats_def length_js_sort set_js_sort processedStats_def)

lemma resolve_orphan:
  "rangeDetailsMap fs rid = None \<Longrightarrow>
   resolve (rangeDetailsMap fs) t rid =
     \<lparr>stat_id = rid, folderName = deleted_folder, rangeName = range_not_found,
      count = table_count t rid\<rparr>"
  by (simp add: resolve_def or_zero_Number_js)

lemma resolve_in_processedStats:
  "rid \<in> set (chartRangeIds c) \<Longrightarrow> resolve (rangeDetailsMap fs) t rid \<in> set (processedStats fs t c)"
  by (simp add: processedStats_def)

section \<open>The claims\<close>

text \<open>
  C1. For every chart, catalog and usage table the output is in descending order of
  count: each entry's count is \<open>>=\<close> the count of the entry after it.
\<close>

theorem topStats_descending:
  "\<forall>i. i + 1 < length (topStats allFolders allStats chart) \<longrightarrow>
     js_ge (count (topStats allFolders allStats chart ! i))
           (count (topStats allFolders allStats chart ! (i + 1)))"
  using sorted_topStats [of allFolders allStats chart]
  by (simp add: sorted_wrt_iff_nth_less count_ge_def)

theorem topStats_descending_witness:
  "0 + 1 < length (topStats ex_folders ex_stats ex_chart) \<and>
   js_ge (count (topStats ex_folders ex_stats ex_chart ! 0))
         (count (topStats ex_folders ex_stats ex_chart ! (0 + 1))) \<and>
   map count (topStats ex_folders ex_stats ex_chart) = [Fin 9, Fin 5, Fin 2, Fin 0]"
proof -
  have h: "0 + 1 < length (topStats ex_folders ex_stats ex_chart)"
    by (simp add: topStats_ex)
  have "js_ge (count (topStats ex_folders ex_stats ex_chart ! 0))
              (count (topStats ex_folders ex_stats ex_chart ! (0 + 1)))"
    using topStats_descending [of ex_folders ex_stats ex_chart] h by blast
  then show ?thesis using h by (simp add: topStats_ex)
qed

text \<open>
  C2. The output has \<open>min(10, n)\<close> entries, where \<open>n\<close> is the number of distinct
  identifiers the chart's buttons reference, and they are the first 10 after sorting: the
  entries of the output are the resolved entries of rank below 10, the entry at position
  \<open>i\<close> is the one of rank \<open>i\<close>, and no entry that is cut has a greater count than an entry
  that is kept.
\<close>

theorem topStats_first_ten:
  "length (topStats allFolders allStats chart) =
     min 10 (card {rid. \<exists>button \<in> set (buttons chart). references button rid}) \<and>
   set (topStats allFolders allStats chart) \<subseteq> set (processedStats allFolders allStats chart) \<and>
   (\<forall>stat \<in> set (processedStats allFolders allStats chart).
      stat \<in> set (topStats allFolders allStats chart) \<longleftrightarrow>
      rank_in (processedStats allFolders allStats chart) stat < 10) \<and>
   (\<forall>i < length (topStats allFolders allStats chart).
      rank_in (processedStats allFolders allStats chart) (topStats allFolders allStats chart ! i) = i) \<and>
   (\<forall>stat \<in> set (processedStats allFolders allStats chart).
      \<forall>kept \<in> set (topStats allFolders allStats chart).
        stat \<notin> set (topStats allFolders allStats chart) \<longrightarrow> js_ge (count kept) (count stat))"
proof -
  have "length (topStats allFolders allStats chart) =
     min 10 (card {rid. \<exists>button \<in> set (buttons chart). references button rid})"
    by (simp add: topStats_def length_js_sort length_processedStats min.commute)
  then show ?thesis
    using set_topStats_subset [of allFolders allStats chart]
      in_topStats_iff [of _ allFolders allStats chart]
      rank_topStats_nth [of _ allFolders allStats chart]
      cut_below_kept [of _ allFolders allStats chart]
    by blast
qed

theorem topStats_first_ten_witness:
  "length (topStats ex_folders big_stats big_chart) = 10 \<and>
   card {rid. \<exists>button \<in> set (buttons big_chart). references button rid} = 11 \<and>
   rank_in (processedStats ex_folders big_stats big_chart)
     (resolve (rangeDetailsMap ex_folders) big_stats ''j'') = 0 \<and>
   resolve (rangeDetailsMap ex_folders) big_stats ''j''
     \<in> set (topStats ex_folders big_stats big_chart) \<and>
   rank_in (processedStats ex_folders big_stats big_chart)
     (resolve (rangeDetailsMap ex_folders) big_stats ''k'') = 10 \<and>
   resolve (rangeDetailsMap ex_folders) big_stats ''k''
     \<notin> set (topStats ex_folders big_stats big_chart)"
proof -
  have "card (set (chartRangeIds big_chart)) = 11"
    unfolding chartRangeIds_big by simp
  then have n: "card {rid. \<exists>button \<in> set (buttons big_chart). references button rid} = 11"
    by (simp add: set_chartRangeIds)
  have j: "resolve (rangeDetailsMap ex_folders) big_stats ''j''
      \<in> set (processedStats ex_folders big_stats big_chart)"
    and k: "resolve (rangeDetailsMap ex_folders) big_stats ''k''
      \<in> set (processedStats ex_folders big_stats big_chart)"
    by (simp_all add: resolve_in_processedStats chartRangeIds_big)
  have rj: "rank_in (processedStats ex_folders big_stats big_chart)
      (resolve (rangeDetailsMap ex_folders) big_stats ''j'') = 0"
    and rk: "rank_in (processedStats ex_folders big_stats big_chart)
      (resolve (rangeDetailsMap ex_folders) big_stats ''k'') = 10"
    unfolding processedStats_big
    by (simp_all add: rank_in_def resolve_defs ex_folders_def big_stats_def)
  show ?thesis
    using topStats_first_ten [of ex_folders big_stats big_chart] n j k rj rk by auto
qed

text \<open>
  C3. The identifiers of the resolved list before truncation are pairwise distinct, they
  are exactly the identifiers some button references, and an identifier that buttons
  reference, however many times, has exactly one entry.
\<close>

theorem processedStats_one_per_reference:
  "distinct (map stat_id (processedStats allFolders allStats chart)) \<and>
   set (map stat_id (processedStats allFolders allStats chart)) =
     {rid. \<exists>button \<in> set (buttons chart). references button rid} \<and>
   (\<forall>rid. (\<exists>button \<in> set (buttons chart). references button rid) \<longrightarrow>
      length (filter (\<lambda>stat. stat_id stat = rid) (processedStats allFolders allStats chart)) = 1)"
proof -
  have "length (filter (\<lambda>stat. stat_id stat = rid) (processedStats allFolders allStats chart)) = 1"
    if "\<exists>button \<in> set (buttons chart). references button rid" for rid
  proof -
    have "rid \<in> set (chartRangeIds chart)"
      using that by (simp add: set_chartRangeIds)
    then have "length (filter (\<lambda>y. y = rid) (chartRangeIds chart)) = 1"
      by (simp add: length_filter_eq_distinct distinct_chartRangeIds)
    then show ?thesis
      by (simp add: processedStats_def filter_map comp_def stat_id_resolve)
  qed
  then show ?thesis
    by (simp add: map_stat_id_processedStats distinct_chartRangeIds set_chartRangeIds)
qed

theorem processedStats_one_per_reference_witness:
  "(\<exists>button \<in> set (buttons ex_chart). references button ''r1'') \<and>
   length (filter (\<lambda>stat. stat_id stat = ''r1'') (processedStats ex_folders ex_stats ex_chart)) = 1 \<and>
   map stat_id (processedStats ex_folders ex_stats ex_chart) = [''r1'', ''r2'', ''r3'', ''r4'']"
proof -
  have h: "\<exists>button \<in> set (buttons ex_chart). references button ''r1''"
    by (simp add: ex_chart_def references_def)
  show ?thesis
    using processedStats_one_per_reference [of ex_folders ex_stats ex_chart] h
    by (simp add: map_stat_id_processedStats chartRangeIds_ex)
qed

text \<open>
  C4. A normal button whose \<open>linkedItem\<close> is \<open>label-only\<close> or \<open>exit\<close> adds nothing
  through its \<open>linkedItem\<close>: the button collects what its link buttons alone collect, and
  a chart collects the same identifiers as the chart in which every such button has no
  \<open>linkedItem\<close>.
\<close>

theorem sentinel_linkedItem_no_reference:
  "(btype button = ''normal'' \<and>
      (linkedItem button = Some ''label-only'' \<or> linkedItem button = Some ''exit'') \<longrightarrow>
      add_linkedItem button s = s \<and> collect_button button s = add_linkButtons button s) \<and>
   chartRangeIds (chart\<lparr>buttons := map without_sentinel (buttons chart)\<rparr>) = chartRangeIds chart"
proof -
  have "chartRangeIds (chart\<lparr>buttons := map without_sentinel (buttons chart)\<rparr>) = chartRangeIds chart"
    by (rule chartRangeIds_map_buttons) (rule collect_button_without_sentinel)
  then show ?thesis
    by (auto simp: add_linkedItem_def collect_button_def)
qed

theorem sentinel_linkedItem_no_reference_witness:
  "btype (normal_button ''exit'') = ''normal'' \<and>
   linkedItem (normal_button ''exit'') = Some ''exit'' \<and>
   add_linkedItem (normal_button ''exit'') [''r1''] = [''r1''] \<and>
   chartRangeIds (ex_chart\<lparr>buttons := map without_sentinel (buttons ex_chart)\<rparr>) =
     [''r1'', ''r2'', ''r3'', ''r4'']"
  using sentinel_linkedItem_no_reference [of "normal_button ''exit''" "[''r1'']" ex_chart]
  by (simp add: normal_button_def chartRangeIds_ex)

text \<open>
  C5. A link button that is not enabled adds nothing, whatever its \<open>targetRangeId\<close>; a
  link button that adds something is enabled and has a present, non-empty
  \<open>targetRangeId\<close>; and a chart collects the same identifiers when the disabled link
  buttons, or all link buttons that are not enabled with a non-empty target, are removed
  from every button.
\<close>

theorem disabled_linkBtn_no_reference:
  "(\<not> enabled linkBtn \<longrightarrow> add_linkBtn linkBtn s = s) \<and>
   (add_linkBtn linkBtn s \<noteq> s \<longrightarrow> contributing linkBtn) \<and>
   chartRangeIds (chart\<lparr>buttons := map (keep_linkButtons enabled) (buttons chart)\<rparr>) =
     chartRangeIds chart \<and>
   chartRangeIds (chart\<lparr>buttons := map (keep_linkButtons contributing) (buttons chart)\<rparr>) =
     chartRangeIds chart"
proof -
  have 1: "\<not> enabled linkBtn \<longrightarrow> add_linkBtn linkBtn s = s"
    by (simp add: add_linkBtn_idle contributing_def)
  have 2: "add_linkBtn linkBtn s \<noteq> s \<longrightarrow> contributing linkBtn"
    using add_linkBtn_idle [of linkBtn s] by blast
  have 3: "chartRangeIds (chart\<lparr>buttons := map (keep_linkButtons enabled) (buttons chart)\<rparr>) =
     chartRangeIds chart"
    by (rule chartRangeIds_map_buttons, rule collect_button_keep_linkButtons)
      (simp add: contributing_def)
  have 4: "chartRangeIds (chart\<lparr>buttons := map (keep_linkButtons contributing) (buttons chart)\<rparr>) =
     chartRangeIds chart"
    by (rule chartRangeIds_map_buttons, rule collect_button_keep_linkButtons)
  from 1 2 3 4 show ?thesis by blast
qed

theorem disabled_linkBtn_no_reference_witness:
  "\<not> enabled \<lparr>enabled = False, targetRangeId = Some ''r9''\<rparr> \<and>
   add_linkBtn \<lparr>enabled = False, targetRangeId = Some ''r9''\<rparr> [''r1''] = [''r1''] \<and>
   add_linkBtn \<lparr>enabled = True, targetRangeId = Some ''r2''\<rparr> [''r1''] \<noteq> [''r1''] \<and>
   contributing \<lparr>enabled = True, targetRangeId = Some ''r2''\<rparr> \<and>
   chartRangeIds (ex_chart\<lparr>buttons := map (keep_linkButtons enabled) (buttons ex_chart)\<rparr>) =
     [''r1'', ''r2'', ''r3'', ''r4'']"
proof -
  have h: "add_linkBtn \<lparr>enabled = True, targetRangeId = Some ''r2''\<rparr> [''r1''] \<noteq> [''r1'']"
    by (simp add: add_linkBtn_def set_add_def)
  show ?thesis
    using disabled_linkBtn_no_reference
        [of "\<lparr>enabled = False, targetRangeId = Some ''r9''\<rparr>" "[''r1'']" ex_chart]
      disabled_linkBtn_no_reference
        [of "\<lparr>enabled = True, targetRangeId = Some ''r2''\<rparr>" "[''r1'']" ex_chart] h
    by (simp add: chartRangeIds_ex)
qed

text \<open>
  C6, as amended. The count of an entry is \<open>Number(v) || 0\<close> for the value \<open>v\<close> that
  the table holds for the identifier: a number is kept as it is stored (a negative number
  or a fraction stays what it is, nothing makes it non-negative), and a missing entry,
  \<open>null\<close>, \<open>false\<close>, \<open>NaN\<close>, 0, a plain object and a string that \<open>Number\<close> does not
  read as a number give 0, while \<open>true\<close> gives 1 and other strings and arrays give what
  \<open>Number\<close> reads. Resolution completes, with one entry per collected identifier, for
  every table other than \<open>null\<close> in which no value read for a collected identifier is an
  object with an own \<open>toString\<close> member or an array that holds one; in the remaining
  cases the conversion throws and the dialog gets the empty list.
\<close>

theorem count_is_Number_or_zero:
  "((\<forall>rid \<in> set (chartRangeIds chart). count_of rt allStats rid \<noteq> Inl TypeError) \<longrightarrow>
      (\<exists>stats. processedStats_json rt allFolders allStats chart = Inr stats \<and>
         stats_state rt allFolders allStats chart = take 10 (js_sort stats) \<and>
         stats_state rt allFolders allStats chart =
           topStats allFolders (counts_view rt allStats) chart \<and>
         map stat_id stats = chartRangeIds chart \<and>
         (\<forall>stat \<in> set stats. count_of rt allStats (stat_id stat) = Inr (count stat)))) \<and>
   ((\<exists>rid \<in> set (chartRangeIds chart). count_of rt allStats rid = Inl TypeError) \<longrightarrow>
      processedStats_json rt allFolders allStats chart = Inl TypeError \<and>
      stats_state rt allFolders allStats chart = []) \<and>
   (count_of rt allStats rid = Inl TypeError \<longleftrightarrow>
      allStats = JNull \<or> (\<exists>v. js_get rt allStats rid = Inr (Some v) \<and> unconvertible v)) \<and>
   count_of rt (JObject fs) rid =
     (case map_of (rev fs) rid of
        None \<Rightarrow> Inr (Fin 0)
      | Some JNull \<Rightarrow> Inr (Fin 0)
      | Some (JBool b) \<Rightarrow> Inr (Fin (if b then 1 else 0))
      | Some (JNumber n) \<Rightarrow> Inr (if n = NaN then Fin 0 else n)
      | Some (JString s) \<Rightarrow> Inr (or_zero (StringToNumber rt s))
      | Some (JArray xs) \<Rightarrow>
          (case js_join rt xs of
             Inl e \<Rightarrow> Inl e
           | Inr s \<Rightarrow> Inr (or_zero (StringToNumber rt s)))
      | Some (JObject gs) \<Rightarrow>
          if ''toString'' \<in> fst ` set gs then Inl TypeError else Inr (Fin 0))"
proof -
  have ok: "\<exists>stats. processedStats_json rt allFolders allStats chart = Inr stats \<and>
         stats_state rt allFolders allStats chart = take 10 (js_sort stats) \<and>
         stats_state rt allFolders allStats chart =
           topStats allFolders (counts_view rt allStats) chart \<and>
         map stat_id stats = chartRangeIds chart \<and>
         (\<forall>stat \<in> set stats. count_of rt allStats (stat_id stat) = Inr (count stat))"
    if h: "\<forall>rid \<in> set (chartRangeIds chart). count_of rt allStats rid \<noteq> Inl TypeError"
  proof -
    let ?P = "processedStats allFolders (counts_view rt allStats) chart"
    have p: "processedStats_json rt allFolders allStats chart = Inr ?P"
      using h by (rule processedStats_json_ok)
    have c: "count_of rt allStats (stat_id stat) = Inr (count stat)" if "stat \<in> set ?P" for stat
    proof -
      have "stat_id stat \<in> set (chartRangeIds chart)"
        using that map_stat_id_processedStats [of allFolders "counts_view rt allStats" chart]
        by (metis imageI set_map)
      then obtain n where n: "count_of rt allStats (stat_id stat) = Inr n"
        using h count_of_cases [of rt allStats "stat_id stat"] by blast
      have "count stat = table_count (counts_view rt allStats) (stat_id stat)"
        using processedStats_entry [OF that] count_resolve by metis
      then show ?thesis using n table_count_view [OF n] by simp
    qed
    show ?thesis
      using p c by (simp add: stats_state_def topStats_def map_stat_id_processedStats)
  qed
  have throws: "processedStats_json rt allFolders allStats chart = Inl TypeError \<and>
      stats_state rt allFolders allStats chart = []"
    if "\<exists>rid \<in> set (chartRangeIds chart). count_of rt allStats rid = Inl TypeError"
    using processedStats_json_throws [OF that, of allFolders] by (simp add: stats_state_def)
  from ok throws show ?thesis
    using count_of_throws [of rt allStats rid] count_of_JObject [of rt fs rid] by blast
qed

theorem count_is_Number_or_zero_witness:
  "count_of example_runtime json_stats ''r1'' = Inr (Fin 7) \<and>
   count_of example_runtime json_stats ''r2'' = Inr (Fin 1) \<and>
   count_of example_runtime json_stats ''r3'' = Inr (Fin 3) \<and>
   count_of example_runtime json_stats ''r4'' = Inr (Fin 0) \<and>
   map stat_id (stats_state example_runtime ex_folders json_stats ex_chart) =
     [''r1'', ''r3'', ''r2'', ''r4''] \<and>
   map count (stats_state example_runtime ex_folders json_stats ex_chart) =
     [Fin 7, Fin 3, Fin 1, Fin 0]"
proof -
  have c: "count_of example_runtime json_stats ''r1'' = Inr (Fin 7)"
    "count_of example_runtime json_stats ''r2'' = Inr (Fin 1)"
    "count_of example_runtime json_stats ''r3'' = Inr (Fin 3)"
    "count_of example_runtime json_stats ''r4'' = Inr (Fin 0)"
    by (simp_all add: count_of_def json_stats_def example_runtime_def or_zero_def)
  then have h: "\<forall>rid \<in> set (chartRangeIds ex_chart).
      count_of example_runtime json_stats rid \<noteq> Inl TypeError"
    by (simp add: chartRangeIds_ex)
  obtain stats where
    s: "processedStats_json example_runtime ex_folders json_stats ex_chart = Inr stats"
      "stats_state example_runtime ex_folders json_stats ex_chart = take 10 (js_sort stats)"
    using count_is_Number_or_zero [of ex_chart example_runtime json_stats ex_folders] h
    by blast
  then show ?thesis
    using c by (auto simp: processedStats_json_ex rank_defs)
qed

text \<open>
  C6 as stated fails in three ways. The table stores \<open>-3\<close> for \<open>r1\<close>: the count is \<open>-3\<close>,
  which is not \<open>>= 0\<close>. The table stores \<open>true\<close>, which is no number: the count is 1, not
  0. The table stores an object with an own \<open>toString\<close> member, or the table is \<open>null\<close>:
  the conversion throws and the dialog gets the empty list although \<open>r1\<close> is collected.
\<close>

theorem count_coercion_counterexample:
  "chartRangeIds one_chart = [''r1''] \<and>
   stats_state example_runtime ex_folders (JObject [(''r1'', JNumber (Fin (- 3)))]) one_chart =
     [\<lparr>stat_id = ''r1'', folderName = ''F'', rangeName = ''A'', count = Fin (- 3)\<rparr>] \<and>
   \<not> js_ge (Fin (- 3)) (Fin 0) \<and>
   stats_state example_runtime ex_folders (JObject [(''r1'', JBool True)]) one_chart =
     [\<lparr>stat_id = ''r1'', folderName = ''F'', rangeName = ''A'', count = Fin 1\<rparr>] \<and>
   stats_state example_runtime ex_folders
     (JObject [(''r1'', JObject [(''toString'', JNull)])]) one_chart = [] \<and>
   stats_state example_runtime ex_folders JNull one_chart = []"
  by (simp add: chartRangeIds_one stats_state_def json_defs ex_folders_def rank_defs)

text \<open>
  C7, as amended. An identifier that the chart references and that no range of the catalog
  has is resolved to an entry with the two placeholder names and the count of the table,
  and nothing is raised. The entry is in the resolved list, and an entry of the output
  with this identifier is this entry. The output has it exactly when it is among the
  first 10 of the sorted list, that is, when its rank is below 10; so it has it whenever
  at most 10 identifiers are collected.
\<close>

theorem orphan_gets_placeholders:
  assumes "rid \<in> set (chartRangeIds chart)"
    and "\<forall>folder \<in> set allFolders. \<forall>rng \<in> set (ranges folder). range_id rng \<noteq> rid"
  shows "\<lparr>stat_id = rid, folderName = deleted_folder, rangeName = range_not_found,
           count = table_count allStats rid\<rparr> \<in> set (processedStats allFolders allStats chart) \<and>
         (\<forall>stat \<in> set (topStats allFolders allStats chart). stat_id stat = rid \<longrightarrow>
            stat = \<lparr>stat_id = rid, folderName = deleted_folder, rangeName = range_not_found,
                    count = table_count allStats rid\<rparr>) \<and>
         (length (chartRangeIds chart) \<le> 10 \<longrightarrow>
            \<lparr>stat_id = rid, folderName = deleted_folder, rangeName = range_not_found,
             count = table_count allStats rid\<rparr> \<in> set (topStats allFolders allStats chart)) \<and>
         (\<lparr>stat_id = rid, folderName = deleted_folder, rangeName = range_not_found,
            count = table_count allStats rid\<rparr> \<in> set (topStats allFolders allStats chart) \<longleftrightarrow>
          rank_in (processedStats allFolders allStats chart)
            \<lparr>stat_id = rid, folderName = deleted_folder, rangeName = range_not_found,
             count = table_count allStats rid\<rparr> < 10)"
proof -
  let ?e = "\<lparr>stat_id = rid, folderName = deleted_folder, rangeName = range_not_found,
             count = table_count allStats rid\<rparr>"
  have none: "rangeDetailsMap allFolders rid = None"
    using assms(2) by (simp add: rangeDetailsMap_None)
  have e: "resolve (rangeDetailsMap allFolders) allStats rid = ?e"
    using none by (rule resolve_orphan)
  have 1: "?e \<in> set (processedStats allFolders allStats chart)"
    using resolve_in_processedStats [OF assms(1), of allFolders allStats] e by simp
  have 2: "stat = ?e"
    if "stat \<in> set (topStats allFolders allStats chart)" "stat_id stat = rid" for stat
  proof -
    have "stat \<in> set (processedStats allFolders allStats chart)"
      using that(1) set_topStats_subset by blast
    then show ?thesis
      using processedStats_entry that(2) e by metis
  qed
  have 3: "?e \<in> set (topStats allFolders allStats chart)"
    if "length (chartRangeIds chart) \<le> 10"
    using 1 topStats_all_when_short [OF that] by simp
  have 4: "?e \<in> set (topStats allFolders allStats chart) \<longleftrightarrow>
      rank_in (processedStats allFolders allStats chart) ?e < 10"
    using 1 by (rule in_topStats_iff)
  from 1 2 3 4 show ?thesis by blast
qed

theorem orphan_gets_placeholders_witness:
  "''r3'' \<in> set (chartRangeIds ex_chart) \<and>
   map range_id (concat (map ranges ex_folders)) = [''r1'', ''r2''] \<and>
   length (chartRangeIds ex_chart) \<le> 10 \<and>
   rank_in (processedStats ex_folders ex_stats ex_chart)
     \<lparr>stat_id = ''r3'', folderName = deleted_folder, rangeName = range_not_found,
      count = Fin 2\<rparr> = 2 \<and>
   \<lparr>stat_id = ''r3'', folderName = deleted_folder, rangeName = range_not_found,
    count = Fin 2\<rparr> \<in> set (topStats ex_folders ex_stats ex_chart)"
proof -
  have h1: "''r3'' \<in> set (chartRangeIds ex_chart)"
    by (simp add: chartRangeIds_ex)
  have h2: "\<forall>folder \<in> set ex_folders. \<forall>rng \<in> set (ranges folder). range_id rng \<noteq> ''r3''"
    by (simp add: ex_folders_def)
  have h3: "length (chartRangeIds ex_chart) \<le> 10"
    by (simp add: chartRangeIds_ex)
  have c: "table_count ex_stats ''r3'' = Fin 2"
    by (simp add: table_count_def ex_stats_def)
  have ids: "map range_id (concat (map ranges ex_folders)) = [''r1'', ''r2'']"
    by (simp add: ex_folders_def)
  have r: "rank_in (processedStats ex_folders ex_stats ex_chart)
     \<lparr>stat_id = ''r3'', folderName = deleted_folder, rangeName = range_not_found,
      count = Fin 2\<rparr> = 2"
    by (simp add: processedStats_ex rank_in_def)
  show ?thesis
    using orphan_gets_placeholders [OF h1 h2, of ex_stats] h1 h3 c ids r by simp
qed

text \<open>
  C7 as stated fails: the chart collects eleven identifiers, none of them in the catalog,
  with the counts 1 to 11; the output holds the ten entries with the counts 11 to 2 and
  has no entry for \<open>a\<close>, whose count is 1.
\<close>

theorem orphan_truncated_counterexample:
  "''a'' \<in> set (chartRangeIds big_chart) \<and>
   ''a'' \<notin> set (map range_id (concat (map ranges ex_folders))) \<and>
   full_stats ''a'' = Some (Fin 1) \<and>
   map stat_id (topStats ex_folders full_stats big_chart) =
     [''k'', ''j'', ''i'', ''h'', ''g'', ''f'', ''e'', ''d'', ''c'', ''b''] \<and>
   ''a'' \<notin> set (map stat_id (topStats ex_folders full_stats big_chart))"
proof -
  have "full_stats ''a'' = Some (Fin 1)"
    by (simp add: full_stats_def big_stats_def)
  moreover have "''a'' \<notin> set (map range_id (concat (map ranges ex_folders)))"
    by (simp add: ex_folders_def)
  ultimately show ?thesis
    by (simp add: chartRangeIds_big map_stat_id_topStats_full)
qed

text \<open>
  C8. When an identifier occurs several times in the catalog, its last occurrence in scan
  order gives the names: the map holds them, and every resolved entry with this
  identifier carries them.
\<close>

theorem last_catalog_entry_wins:
  assumes "catalog_scan allFolders = pre @ (rid, d) # post"
    and "rid \<notin> fst ` set post"
  shows "rangeDetailsMap allFolders rid = Some d \<and>
         folderName (resolve (rangeDetailsMap allFolders) allStats rid) = fst d \<and>
         rangeName (resolve (rangeDetailsMap allFolders) allStats rid) = snd d \<and>
         (\<forall>stat \<in> set (processedStats allFolders allStats chart). stat_id stat = rid \<longrightarrow>
            folderName stat = fst d \<and> rangeName stat = snd d)"
proof -
  have m: "rangeDetailsMap allFolders rid = Some d"
    using assms by (rule rangeDetailsMap_last)
  then have r: "folderName (resolve (rangeDetailsMap allFolders) allStats rid) = fst d \<and>
      rangeName (resolve (rangeDetailsMap allFolders) allStats rid) = snd d"
    by (simp add: resolve_def)
  have "folderName stat = fst d \<and> rangeName stat = snd d"
    if "stat \<in> set (processedStats allFolders allStats chart)" "stat_id stat = rid" for stat
    using processedStats_entry [OF that(1)] that(2) r by simp
  with m r show ?thesis by blast
qed

theorem last_catalog_entry_wins_witness:
  "catalog_scan dup_folders =
     [(''r1'', (''F'', ''A'')), (''r2'', (''F'', ''B''))] @ (''r1'', (''G'', ''C'')) # [] \<and>
   ''r1'' \<notin> fst ` set ([] :: (string \<times> RangeDetails) list) \<and>
   rangeDetailsMap dup_folders ''r1'' = Some (''G'', ''C'') \<and>
   folderName (resolve (rangeDetailsMap dup_folders) ex_stats ''r1'') = ''G'' \<and>
   rangeName (resolve (rangeDetailsMap dup_folders) ex_stats ''r1'') = ''C''"
proof -
  have h2: "''r1'' \<notin> fst ` set ([] :: (string \<times> RangeDetails) list)"
    by simp
  show ?thesis
    using last_catalog_entry_wins [OF catalog_scan_dup h2, of ex_stats ex_chart] catalog_scan_dup
    by simp
qed

text \<open>
  C9, as amended. The ranking filters nothing by count: an identifier whose count is 0 has
  its entry in the resolved and in the sorted list, and the output has the entry exactly
  when it is among the first 10 of the sorted list, that is, when fewer than 10 resolved
  entries have a greater count or the same count and an earlier place in the collection
  order. So the output has it whenever at most 10 identifiers are collected. The list the
  dialog shows leaves the entry out.
\<close>

theorem zero_count_ranked_not_filtered:
  assumes "rid \<in> set (chartRangeIds chart)"
    and "count (resolve (rangeDetailsMap allFolders) allStats rid) = Fin 0"
  shows "resolve (rangeDetailsMap allFolders) allStats rid
           \<in> set (processedStats allFolders allStats chart) \<and>
         resolve (rangeDetailsMap allFolders) allStats rid
           \<in> set (js_sort (processedStats allFolders allStats chart)) \<and>
         (resolve (rangeDetailsMap allFolders) allStats rid
            \<in> set (topStats allFolders allStats chart) \<longleftrightarrow>
          rank_in (processedStats allFolders allStats chart)
            (resolve (rangeDetailsMap allFolders) allStats rid) < 10) \<and>
         rank_in (processedStats allFolders allStats chart)
            (resolve (rangeDetailsMap allFolders) allStats rid) =
           length (filter (\<lambda>stat. js_gt (count stat) (Fin 0))
                     (processedStats allFolders allStats chart)) +
           length (filter (\<lambda>stat. count stat = Fin 0)
                     (takeWhile (\<lambda>stat. stat_id stat \<noteq> rid)
                        (processedStats allFolders allStats chart))) \<and>
         (length (chartRangeIds chart) \<le> 10 \<longrightarrow>
            resolve (rangeDetailsMap allFolders) allStats rid
              \<in> set (topStats allFolders allStats chart)) \<and>
         resolve (rangeDetailsMap allFolders) allStats rid
           \<notin> set (shownStats (topStats allFolders allStats chart))"
proof -
  let ?e = "resolve (rangeDetailsMap allFolders) allStats rid"
  let ?P = "processedStats allFolders allStats chart"
  have 1: "?e \<in> set ?P"
    using assms(1) by (rule resolve_in_processedStats)
  have 2: "?e \<notin> set (shownStats (topStats allFolders allStats chart))"
    using assms(2) by (simp add: shownStats_def)
  have 3: "?e \<in> set (topStats allFolders allStats chart) \<longleftrightarrow> rank_in ?P ?e < 10"
    using 1 by (rule in_topStats_iff)
  have "takeWhile (\<lambda>stat. stat \<noteq> ?e) ?P = takeWhile (\<lambda>stat. stat_id stat \<noteq> rid) ?P"
  proof (rule takeWhile_cong)
    fix stat assume "stat \<in> set ?P"
    then show "(stat \<noteq> ?e) = (stat_id stat \<noteq> rid)"
      using processedStats_entry [of stat allFolders allStats chart] stat_id_resolve by metis
  qed simp
  then have 4: "rank_in ?P ?e =
      length (filter (\<lambda>stat. js_gt (count stat) (Fin 0)) ?P) +
      length (filter (\<lambda>stat. count stat = Fin 0) (takeWhile (\<lambda>stat. stat_id stat \<noteq> rid) ?P))"
    using assms(2) by (simp add: rank_in_def)
  from 1 2 3 4 show ?thesis
    using topStats_all_when_short [of chart allFolders allStats]
    by (auto simp: set_js_sort)
qed

theorem zero_count_ranked_not_filtered_witness:
  "''r4'' \<in> set (chartRangeIds ex_chart) \<and>
   count (resolve (rangeDetailsMap ex_folders) ex_stats ''r4'') = Fin 0 \<and>
   rank_in (processedStats ex_folders ex_stats ex_chart)
     (resolve (rangeDetailsMap ex_folders) ex_stats ''r4'') = 3 \<and>
   resolve (rangeDetailsMap ex_folders) ex_stats ''r4''
     \<in> set (topStats ex_folders ex_stats ex_chart) \<and>
   resolve (rangeDetailsMap ex_folders) ex_stats ''r4''
     \<notin> set (shownStats (topStats ex_folders ex_stats ex_chart))"
proof -
  have h1: "''r4'' \<in> set (chartRangeIds ex_chart)"
    by (simp add: chartRangeIds_ex)
  have h2: "count (resolve (rangeDetailsMap ex_folders) ex_stats ''r4'') = Fin 0"
    by (simp add: count_resolve table_count_def ex_stats_def)
  have r: "rank_in (processedStats ex_folders ex_stats ex_chart)
     (resolve (rangeDetailsMap ex_folders) ex_stats ''r4'') = 3"
    unfolding processedStats_ex
    by (simp add: rank_in_def resolve_defs ex_folders_def ex_stats_def)
  show ?thesis
    using zero_count_ranked_not_filtered [OF h1 h2] h1 h2 r by simp
qed

text \<open>
  C9 as stated fails: the chart collects eleven identifiers, ten of them with the counts
  1 to 10 and \<open>k\<close> with the count 0, and the output has no entry for \<open>k\<close>.
\<close>

theorem zero_count_truncated_counterexample:
  "''k'' \<in> set (chartRangeIds big_chart) \<and>
   count (resolve (rangeDetailsMap ex_folders) big_stats ''k'') = Fin 0 \<and>
   ''k'' \<notin> set (map stat_id (topStats ex_folders big_stats big_chart))"
proof -
  have "count (resolve (rangeDetailsMap ex_folders) big_stats ''k'') = Fin 0"
    by (simp add: count_resolve table_count_def big_stats_def)
  then show ?thesis
    by (simp add: chartRangeIds_big map_stat_id_topStats_big)
qed

text \<open>
  C10. The empty string is no reference: a \<open>linkedItem\<close> that is the empty string adds
  nothing, a link button whose \<open>targetRangeId\<close> is the empty string adds nothing, and
  neither the collected identifiers nor the output contain the empty string.
\<close>

theorem empty_string_no_reference:
  "(linkedItem button = Some [] \<longrightarrow> add_linkedItem button s = s) \<and>
   (targetRangeId linkBtn = Some [] \<longrightarrow> add_linkBtn linkBtn s = s) \<and>
   [] \<notin> set (chartRangeIds chart) \<and>
   [] \<notin> stat_id ` set (processedStats allFolders allStats chart) \<and>
   [] \<notin> stat_id ` set (topStats allFolders allStats chart)"
proof -
  have c: "[] \<notin> set (chartRangeIds chart)"
    by (auto simp: set_chartRangeIds references_def split: option.splits)
  then have p: "[] \<notin> stat_id ` set (processedStats allFolders allStats chart)"
    using map_stat_id_processedStats [of allFolders allStats chart]
    by (metis set_map)
  then have "[] \<notin> stat_id ` set (topStats allFolders allStats chart)"
    using set_topStats_subset [of allFolders allStats chart] by blast
  with c p show ?thesis
    by (simp add: add_linkedItem_def add_linkBtn_def)
qed

theorem empty_string_no_reference_witness:
  "linkedItem (normal_button []) = Some [] \<and>
   add_linkedItem (normal_button []) [''r1''] = [''r1''] \<and>
   targetRangeId \<lparr>enabled = True, targetRangeId = Some []\<rparr> = Some [] \<and>
   add_linkBtn \<lparr>enabled = True, targetRangeId = Some []\<rparr> [''r1''] = [''r1''] \<and>
   [] \<notin> set (chartRangeIds ex_chart)"
  using empty_string_no_reference
    [of "normal_button []" "[''r1'']" "\<lparr>enabled = True, targetRangeId = Some []\<rparr>"
        ex_chart ex_folders ex_stats]
  by (simp add: normal_button_def)

end
